theory Spec2Isabelle
  imports Complex_Main "HOL-Library.Word"
begin

section \<open>Python values\<close>

text \<open>
  Payloads are Python \<open>bytes\<close>; keys and paths are Python \<open>str\<close>. Sizes and byte counts
  are Python's unbounded integers. The source multiplies integers by the float literals
  \<open>0.9\<close>, \<open>0.8\<close>, \<open>0.1\<close> and \<open>0.05\<close>; these products are modelled by exact rational
  arithmetic, and \<open>int(x)\<close> by truncation toward zero. The numbers of the evaluated
  examples are ones on which binary64 arithmetic gives the same whole numbers (for
  instance \<open>int(1112 * 0.9) = 1000\<close> and \<open>100 * 0.05 = 5.0\<close>).

  The configured \<open>cache_percent\<close> is any float, and the source uses it in one
  expression only, \<open>int(free_space_bytes * self.cache_percent)\<close>. Binary64 rounds that
  product, so the model assumes nothing about it: it keeps of the float the function from
  the free bytes to that whole number. \<open>int_times n percent\<close> is \<open>int(n * percent)\<close>.
  The float is taken to be finite with finite products: \<open>int\<close> of an infinity or of a
  NaN raises, which is not modelled.
  \<open>exact_percent q\<close> is a percent whose products are the exact ones, as those of the
  default \<open>0.5\<close> are on every byte count below \<open>2 ^ 53\<close>.
\<close>

type_synonym byte = "8 word"
type_synonym bytes = "byte list"
type_synonym path = string

definition py_int :: "rat \<Rightarrow> int" where
  "py_int x = (if 0 \<le> x then \<lfloor>x\<rfloor> else \<lceil>x\<rceil>)"

type_synonym percent = "int \<Rightarrow> int"

definition int_times :: "int \<Rightarrow> percent \<Rightarrow> int" where
  "int_times n percent = percent n"

definition exact_percent :: "rat \<Rightarrow> percent" where
  "exact_percent q n = py_int (of_int n * q)"

subsection \<open>OrderedDict\<close>

text \<open>
  An \<open>OrderedDict\<close> is the list of its items, oldest first. \<open>d[k] = v\<close> replaces the
  value of an existing key where it stands and appends a new key at the end;
  \<open>move_to_end(k)\<close> moves the item of \<open>k\<close> to the end; \<open>popitem(last=False)\<close> drops the
  first item; \<open>del d[k]\<close> drops the item of \<open>k\<close>.
\<close>

type_synonym ('k, 'v) odict = "('k \<times> 'v) list"

definition od_keys :: "('k, 'v) odict \<Rightarrow> 'k list" where
  "od_keys d = map fst d"

fun od_set :: "'k \<Rightarrow> 'v \<Rightarrow> ('k, 'v) odict \<Rightarrow> ('k, 'v) odict" where
  "od_set k v [] = [(k, v)]"
| "od_set k v ((k', v') # d) = (if k' = k then (k, v) # d else (k', v') # od_set k v d)"

definition od_move_to_end :: "'k \<Rightarrow> ('k, 'v) odict \<Rightarrow> ('k, 'v) odict" where
  "od_move_to_end k d = filter (\<lambda>e. fst e \<noteq> k) d @ filter (\<lambda>e. fst e = k) d"

definition od_del :: "'k \<Rightarrow> ('k, 'v) odict \<Rightarrow> ('k, 'v) odict" where
  "od_del k d = filter (\<lambda>e. fst e \<noteq> k) d"

section \<open>RAMCache\<close>

record RAMCache =
  cache :: "(path, bytes) odict"
  max_size :: int

text \<open>
  \<open>get_available_ram\<close> reads \<open>psutil.virtual_memory().available\<close>; the reading is an
  argument of every operation that takes it.
\<close>

definition get_available_ram :: "int \<Rightarrow> int" where
  "get_available_ram available = py_int (of_int available * (9 / 10))"

definition current_size :: "(path, bytes) odict \<Rightarrow> int" where
  "current_size d = sum_list (map (\<lambda>e. int (length (snd e))) d)"

text \<open>The loop of \<open>trim_cache\<close>: pop the first item while the sum exceeds \<open>max_size\<close>.\<close>

fun trim_loop :: "int \<Rightarrow> (path, bytes) odict \<Rightarrow> (path, bytes) odict" where
  "trim_loop m [] = []"
| "trim_loop m (e # d) = (if current_size (e # d) > m then trim_loop m d else e # d)"

definition trim_cache :: "RAMCache \<Rightarrow> RAMCache" where
  "trim_cache rc = rc\<lparr>cache := trim_loop (max_size rc) (cache rc)\<rparr>"

definition update_max_size :: "int \<Rightarrow> RAMCache \<Rightarrow> RAMCache" where
  "update_max_size available rc = trim_cache (rc\<lparr>max_size := get_available_ram available\<rparr>)"

definition add :: "int \<Rightarrow> path \<Rightarrow> bytes \<Rightarrow> RAMCache \<Rightarrow> bool \<times> RAMCache" where
  "add available p data rc =
     (let rc1 = update_max_size available rc in
      if int (length data) > max_size rc1 then (False, rc1)
      else
        let rc2 = trim_cache rc1;
            rc3 = rc2\<lparr>cache := od_set p data (cache rc2)\<rparr>;
            rc4 = rc3\<lparr>cache := od_move_to_end p (cache rc3)\<rparr>
        in (True, rc4))"

definition get :: "path \<Rightarrow> RAMCache \<Rightarrow> bytes option \<times> RAMCache" where
  "get p rc =
     (if p \<in> set (od_keys (cache rc))
      then (map_of (cache rc) p, rc\<lparr>cache := od_move_to_end p (cache rc)\<rparr>)
      else (None, rc))"

definition remove :: "path \<Rightarrow> RAMCache \<Rightarrow> RAMCache" where
  "remove p rc = (if p \<in> set (od_keys (cache rc)) then rc\<lparr>cache := od_del p (cache rc)\<rparr> else rc)"

text \<open>The operations of the tier, and a run of a sequence of them from a given state.\<close>

datatype ram_op = Add int path bytes | Get path | Remove path | UpdateMaxSize int | TrimCache

fun ram_step :: "ram_op \<Rightarrow> RAMCache \<Rightarrow> RAMCache" where
  "ram_step (Add available p data) rc = snd (add available p data rc)"
| "ram_step (Get p) rc = snd (get p rc)"
| "ram_step (Remove p) rc = remove p rc"
| "ram_step (UpdateMaxSize available) rc = update_max_size available rc"
| "ram_step TrimCache rc = trim_cache rc"

definition ram_run :: "ram_op list \<Rightarrow> RAMCache \<Rightarrow> RAMCache" where
  "ram_run ops rc = fold ram_step ops rc"

section \<open>The filesystem and the readings of the operating system\<close>

text \<open>
  The filesystem maps a path to a regular file with its content or to a symbolic link with
  its target. Opening a path for reading, \<open>stat\<close> and \<open>exists\<close> follow a link; the
  program only ever creates links whose target is a regular file, and \<open>resolve\<close> follows
  one link.
\<close>

datatype node = File bytes | Symlink path

type_synonym fs = "path \<rightharpoonup> node"

datatype py_error = OSError | KeyError | UnboundLocalError | ValueError

definition resolve :: "fs \<Rightarrow> path \<Rightarrow> bytes option" where
  "resolve f p =
     (case f p of
        None \<Rightarrow> None
      | Some (File b) \<Rightarrow> Some b
      | Some (Symlink t) \<Rightarrow> (case f t of Some (File b) \<Rightarrow> Some b | _ \<Rightarrow> None))"

definition exists :: "fs \<Rightarrow> path \<Rightarrow> bool" where
  "exists f p = (resolve f p \<noteq> None)"

text \<open>
  \<open>shutil.move(src, dst)\<close> onto a path that is free or holds a regular file or a link:
  the node of \<open>src\<close> replaces what \<open>dst\<close> holds, and \<open>src\<close> is gone.
\<close>

definition move :: "path \<Rightarrow> path \<Rightarrow> fs \<Rightarrow> fs" where
  "move src dst f = (f(dst := f src))(src := None)"

text \<open>
  \<open>Path.relative_to\<close> and the \<open>/\<close> of \<open>pathlib\<close> on the strings of the paths. The
  root of the slow storage is a drive root, which ends with the separator, so the rest of
  a path under it is what follows the root's string.
\<close>

definition relative_to :: "path \<Rightarrow> path \<Rightarrow> path option" where
  "relative_to p base = (if take (length base) p = base then Some (drop (length base) p) else None)"

definition joinpath :: "path \<Rightarrow> path \<Rightarrow> path" where
  "joinpath d rel = d @ ''/'' @ rel"

text \<open>What \<open>psutil.disk_usage(ssd_path)\<close> returns.\<close>

record disk_usage =
  total :: int
  free :: int

text \<open>
  What the operating system answers during one pass of the loop of \<open>clean_cache\<close>:
  \<open>st_atime f\<close> is \<open>Path(f).stat().st_atime\<close>, or \<open>None\<close> when \<open>stat\<close> raises
  \<open>OSError\<close>; \<open>unlink_fails\<close> and \<open>move_fails\<close> say that \<open>os.unlink\<close> and
  \<open>shutil.move\<close> raise \<open>OSError\<close> (they also do when their source path does not exist);
  \<open>size_after\<close> is what \<open>get_cache_size()\<close> returns at the end of the pass (the sum of
  the file sizes under the cache directory, or 0 when the enumeration fails).
\<close>

record evict_env =
  st_atime :: "path \<Rightarrow> rat option"
  unlink_fails :: bool
  move_fails :: bool
  size_after :: int

text \<open>For one call of \<open>clean_cache\<close>: the first \<open>get_cache_size()\<close> and the passes.\<close>

record clean_env =
  size_before :: int
  evictions :: "nat \<Rightarrow> evict_env"

record adjust_env =
  usage :: disk_usage
  cleaning :: clean_env

text \<open>
  The step of the \<open>try\<close> block of \<open>cache_file\<close> that raises \<open>OSError\<close>, if any. A
  failing \<open>shutil.copy2\<close> may leave the first bytes of the file at the destination.
\<close>

datatype fault = NoFault | ReadFails | MkdirFails | CopyFails "nat option" | RemoveFails | SymlinkFails

text \<open>
  For one call of \<open>cache_file\<close>: the reading of the available memory, the readings of
  \<open>adjust_cache_size\<close>, of the two calls of \<open>has_space\<close> (disk usage and cache size) and
  of the \<open>clean_cache\<close> between them, and the failures of the filesystem.
\<close>

record cache_env =
  mem_available :: int
  adjust :: adjust_env
  space1 :: "disk_usage \<times> int"
  cleaning2 :: clean_env
  space2 :: "disk_usage \<times> int"
  fault :: fault
  rollback_move_fails :: bool

section \<open>AutoCacheManager\<close>

text \<open>
  The fields of the manager, together with the filesystem it works on and the number of
  calls of \<open>shutil.copy2\<close> made so far. \<open>cached_files\<close> is a Python \<open>dict\<close>, which
  keeps its keys in insertion order. \<open>save_cache\<close> rewrites the configuration file and
  swallows its own failure; it changes nothing that is modelled here.
\<close>

record AutoCacheManager =
  cache_percent :: percent
  min_cache_bytes :: int
  max_cache_bytes :: int
  cache_size_bytes :: int
  cached_files :: "(path, path) odict"
  ram_cache :: RAMCache
  cache_dir :: path
  hdd_dir :: path
  running :: bool
  files :: fs
  copy2_calls :: nat

subsection \<open>The budget of the disk cache\<close>

definition clamp_size :: "int \<Rightarrow> int \<Rightarrow> int \<Rightarrow> int" where
  "clamp_size mn mx proposed = max mn (min mx proposed)"


text \<open>Lines 113 to 116 of \<open>adjust_cache_size\<close>: the size proposed before it is clamped.\<close>

definition proposed_size :: "disk_usage \<Rightarrow> percent \<Rightarrow> int" where
  "proposed_size u percent =
     (if of_int (free u) < of_int (total u) * (1 / 10 :: rat)
      then py_int (of_int (free u) * (8 / 10))
      else int_times (free u) percent)"

definition new_size :: "disk_usage \<Rightarrow> percent \<Rightarrow> int \<Rightarrow> int \<Rightarrow> int" where
  "new_size u percent mn mx = clamp_size mn mx (proposed_size u percent)"

definition has_space :: "disk_usage \<Rightarrow> int \<Rightarrow> AutoCacheManager \<Rightarrow> int \<Rightarrow> bool" where
  "has_space u cache_size s file_size =
     (let min_free = of_int (total u) * (5 / 100 :: rat)
      in of_int (free u - file_size) > min_free \<and> cache_size + file_size \<le> cache_size_bytes s)"

text \<open>
  The specification's wording of \<open>hasSpace\<close>: the space left after the file is at least 5%
  of the total capacity, and the usage with the file is within the budget.
\<close>

definition has_space_spec :: "disk_usage \<Rightarrow> int \<Rightarrow> AutoCacheManager \<Rightarrow> int \<Rightarrow> bool" where
  "has_space_spec u cache_size s file_size =
     (of_int (free u - file_size) \<ge> of_int (total u) * (5 / 100 :: rat)
      \<and> cache_size + file_size \<le> cache_size_bytes s)"

subsection \<open>clean\_cache\<close>

text \<open>
  \<open>min(self.cached_files.keys(), key=lambda f: Path(f).stat().st_atime)\<close>: the keys are
  visited in order, a later key replaces the best one only when its time is strictly
  smaller, and the first \<open>stat\<close> that raises ends the scan.
\<close>

fun min_scan :: "(path \<Rightarrow> rat option) \<Rightarrow> path \<times> rat \<Rightarrow> path list \<Rightarrow> (path \<times> rat) option" where
  "min_scan stat best [] = Some best"
| "min_scan stat best (k # ks) =
     (case stat k of
        None \<Rightarrow> None
      | Some t \<Rightarrow> min_scan stat (if t < snd best then (k, t) else best) ks)"

definition min_by_atime :: "(path \<Rightarrow> rat option) \<Rightarrow> path list \<Rightarrow> py_error + path" where
  "min_by_atime stat ks =
     (case ks of
        [] \<Rightarrow> Inl ValueError
      | k # ks' \<Rightarrow>
          (case stat k of
             None \<Rightarrow> Inl OSError
           | Some t \<Rightarrow>
               (case min_scan stat (k, t) ks' of None \<Rightarrow> Inl OSError | Some b \<Rightarrow> Inr (fst b))))"

text \<open>
  The \<open>except (OSError, IOError)\<close> branch: \<open>del self.cached_files[oldest_file]\<close>. The
  variable \<open>oldest_file\<close> is unbound when \<open>min\<close> raised in the first pass, and holds the
  key of the pass before when \<open>min\<close> raised in a later one.
\<close>

definition except_del ::
  "path option \<Rightarrow> AutoCacheManager \<Rightarrow> int \<Rightarrow> py_error + (path option \<times> AutoCacheManager \<times> int)" where
  "except_del oldest_file s cur =
     (case oldest_file of
        None \<Rightarrow> Inl UnboundLocalError
      | Some k \<Rightarrow>
          if k \<in> set (od_keys (cached_files s))
          then Inr (Some k, s\<lparr>cached_files := od_del k (cached_files s)\<rparr>, cur)
          else Inl KeyError)"

text \<open>
  One pass of the loop, on the variables \<open>oldest_file\<close> and \<open>current_size\<close> and the
  manager. \<open>Inl\<close> is an exception that leaves \<open>clean_cache\<close>; the manager is then as it
  was at the start of the pass.
\<close>

definition clean_iter ::
  "evict_env \<Rightarrow> path option \<Rightarrow> AutoCacheManager \<Rightarrow> int
     \<Rightarrow> py_error + (path option \<times> AutoCacheManager \<times> int)" where
  "clean_iter e oldest_file s cur =
     (case min_by_atime (st_atime e) (od_keys (cached_files s)) of
        Inl err \<Rightarrow> if err = OSError then except_del oldest_file s cur else Inl err
      | Inr k \<Rightarrow>
          (case map_of (cached_files s) k of
             None \<Rightarrow> Inl KeyError
           | Some cache_dest \<Rightarrow>
               if unlink_fails e \<or> files s k = None then except_del (Some k) s cur
               else
                 let s1 = s\<lparr>files := (files s)(k := None)\<rparr> in
                 if move_fails e \<or> files s1 cache_dest = None then except_del (Some k) s1 cur
                 else
                   let s2 = s1\<lparr>files := move cache_dest k (files s1)\<rparr>;
                       s3 = s2\<lparr>cached_files := od_del k (cached_files s2)\<rparr>
                   in Inr (Some k, s3, size_after e)))"

lemma min_scan_mem: "min_scan stat best ks = Some b \<Longrightarrow> fst b \<in> insert (fst best) (set ks)"
proof (induction ks arbitrary: best)
  case Nil
  then show ?case by simp
next
  case (Cons k ks)
  then obtain t where t: "stat k = Some t"
    and rec: "min_scan stat (if t < snd best then (k, t) else best) ks = Some b"
    by (auto split: option.splits)
  from Cons.IH [OF rec] show ?case by (auto split: if_splits)
qed

lemma min_by_atime_mem: "min_by_atime stat ks = Inr k \<Longrightarrow> k \<in> set ks"
  by (auto simp: min_by_atime_def split: list.splits option.splits dest: min_scan_mem)

lemma od_del_shorter: "k \<in> set (od_keys d) \<Longrightarrow> length (od_del k d) < length d"
  unfolding od_del_def od_keys_def by (auto intro: length_filter_less)

lemma except_del_shorter:
  "except_del oldest_file s cur = Inr (o', s', cur')
     \<Longrightarrow> length (cached_files s') < length (cached_files s)"
  by (auto simp: except_del_def od_del_shorter split: option.splits if_splits)

lemma clean_iter_shorter:
  assumes "clean_iter e oldest_file s cur = Inr (o', s', cur')"
  shows "length (cached_files s') < length (cached_files s)"
proof (cases "min_by_atime (st_atime e) (od_keys (cached_files s))")
  case (Inl err)
  with assms show ?thesis
    by (auto simp: clean_iter_def split: if_splits dest: except_del_shorter)
next
  case (Inr k)
  then have "k \<in> set (od_keys (cached_files s))" by (rule min_by_atime_mem)
  then have "length (od_del k (cached_files s)) < length (cached_files s)"
    by (rule od_del_shorter)
  with assms Inr show ?thesis
    by (auto simp: clean_iter_def Let_def split: option.splits if_splits
        dest!: except_del_shorter)
qed

text \<open>
  The \<open>while\<close> loop of \<open>clean_cache\<close>, from pass \<open>i\<close> on. It returns the exception that
  left it, if any, the number of the pass it stopped before, and the manager.
\<close>

function clean_loop ::
  "(nat \<Rightarrow> evict_env) \<Rightarrow> nat \<Rightarrow> path option \<Rightarrow> int \<Rightarrow> AutoCacheManager
     \<Rightarrow> py_error option \<times> nat \<times> AutoCacheManager" where
  "clean_loop envs i oldest_file cur s =
     (if cur > cache_size_bytes s \<and> cached_files s \<noteq> [] then
        (case clean_iter (envs i) oldest_file s cur of
           Inl err \<Rightarrow> (Some err, i, s)
         | Inr (oldest_file', s', cur') \<Rightarrow> clean_loop envs (Suc i) oldest_file' cur' s')
      else (None, i, s))"
  by pat_completeness auto
termination
  by (relation "measure (\<lambda>(envs, i, oldest_file, cur, s). length (cached_files s))")
    (auto dest: clean_iter_shorter)

declare clean_loop.simps [simp del]

definition clean_cache :: "clean_env \<Rightarrow> AutoCacheManager \<Rightarrow> py_error option \<times> AutoCacheManager" where
  "clean_cache ce s =
     (let s1 = s\<lparr>ram_cache := trim_cache (ram_cache s)\<rparr>;
          current_size = size_before ce
      in case clean_loop (evictions ce) 0 None current_size s1 of (r, n, s') \<Rightarrow> (r, s'))"

definition adjust_cache_size :: "adjust_env \<Rightarrow> AutoCacheManager \<Rightarrow> py_error option \<times> AutoCacheManager" where
  "adjust_cache_size ae s =
     (let n = new_size (usage ae) (cache_percent s) (min_cache_bytes s) (max_cache_bytes s)
      in if \<bar>n - cache_size_bytes s\<bar> > 1024 ^ 3
         then clean_cache (cleaning ae) (s\<lparr>cache_size_bytes := n\<rparr>)
         else (None, s))"

subsection \<open>cache\_file\<close>

text \<open>
  The \<open>try\<close> block. \<open>True\<close> with the manager says that it ran to its end, \<open>False\<close> that
  a step raised \<open>OSError\<close>, with the manager as that step found it. \<open>shutil.copy2\<close>
  raises \<open>SameFileError\<close>, an \<open>OSError\<close>, when source and destination are one file.
\<close>

definition try_migrate :: "cache_env \<Rightarrow> path \<Rightarrow> path \<Rightarrow> AutoCacheManager \<Rightarrow> bool \<times> AutoCacheManager" where
  "try_migrate e file_path cache_dest s =
     (case (if fault e = ReadFails then None else resolve (files s) file_path) of
        None \<Rightarrow> (False, s)
      | Some data \<Rightarrow>
          let s1 = s\<lparr>ram_cache := snd (add (mem_available e) file_path data (ram_cache s))\<rparr> in
          if fault e = MkdirFails then (False, s1)
          else
            let s2 = s1\<lparr>copy2_calls := Suc (copy2_calls s1)\<rparr> in
            if file_path = cache_dest \<or> files s2 file_path = Some (Symlink cache_dest)
            then (False, s2)
            else
              (case fault e of
                 CopyFails partial \<Rightarrow>
                   (False,
                    case partial of
                      None \<Rightarrow> s2
                    | Some n \<Rightarrow> s2\<lparr>files := (files s2)(cache_dest \<mapsto> File (take n data))\<rparr>)
               | _ \<Rightarrow>
                   let s3 = s2\<lparr>files := (files s2)(cache_dest \<mapsto> File data)\<rparr> in
                   if fault e = RemoveFails then (False, s3)
                   else
                     let s4 = s3\<lparr>files := (files s3)(file_path := None)\<rparr> in
                     if fault e = SymlinkFails then (False, s4)
                     else
                       let s5 = s4\<lparr>files := (files s4)(file_path \<mapsto> Symlink cache_dest)\<rparr>;
                           s6 = s5\<lparr>cached_files := od_set file_path cache_dest (cached_files s5)\<rparr>
                       in (True, s6)))"

text \<open>
  The \<open>except (IOError, OSError)\<close> branch: \<open>if cache_dest.exists(): shutil.move(cache_dest,
  file_path)\<close>. An \<open>OSError\<close> of this \<open>shutil.move\<close> leaves \<open>cache_file\<close>.
\<close>

definition rollback :: "cache_env \<Rightarrow> path \<Rightarrow> path \<Rightarrow> AutoCacheManager \<Rightarrow> py_error option \<times> AutoCacheManager" where
  "rollback e file_path cache_dest s =
     (if exists (files s) cache_dest then
        (if rollback_move_fails e then (Some OSError, s)
         else (None, s\<lparr>files := move cache_dest file_path (files s)\<rparr>))
      else (None, s))"

definition migrate :: "cache_env \<Rightarrow> path \<Rightarrow> path \<Rightarrow> AutoCacheManager \<Rightarrow> py_error option \<times> AutoCacheManager" where
  "migrate e file_path cache_dest s =
     (case try_migrate e file_path cache_dest s of
        (True, s') \<Rightarrow> (None, s')
      | (False, s') \<Rightarrow> rollback e file_path cache_dest s')"

text \<open>Lines 167 to 190: the path is neither in the RAM cache nor in \<open>cached_files\<close>.\<close>

definition first_migration :: "cache_env \<Rightarrow> path \<Rightarrow> AutoCacheManager \<Rightarrow> py_error option \<times> AutoCacheManager" where
  "first_migration e file_path s =
     (case relative_to file_path (hdd_dir s) of
        None \<Rightarrow> (Some ValueError, s)
      | Some rel \<Rightarrow>
          let cache_dest = joinpath (cache_dir s) rel in
          (case resolve (files s) file_path of
             None \<Rightarrow> (Some OSError, s)
           | Some content \<Rightarrow>
               let file_size = int (length content) in
               (case adjust_cache_size (adjust e) s of
                  (Some err, s1) \<Rightarrow> (Some err, s1)
                | (None, s1) \<Rightarrow>
                    if has_space (fst (space1 e)) (snd (space1 e)) s1 file_size
                    then migrate e file_path cache_dest s1
                    else
                      (case clean_cache (cleaning2 e) s1 of
                         (Some err, s2) \<Rightarrow> (Some err, s2)
                       | (None, s2) \<Rightarrow>
                           if has_space (fst (space2 e)) (snd (space2 e)) s2 file_size
                           then migrate e file_path cache_dest s2
                           else (None, s2)))))"

text \<open>
  \<open>cache_file\<close> returns the exception that left it, if any, and the manager. The \<open>open\<close>
  of the recorded cache path is outside every \<open>try\<close>.
\<close>

definition cache_file :: "cache_env \<Rightarrow> path \<Rightarrow> AutoCacheManager \<Rightarrow> py_error option \<times> AutoCacheManager" where
  "cache_file e file_path s =
     (case get file_path (ram_cache s) of
        (Some ram_data, rc) \<Rightarrow> (None, s\<lparr>ram_cache := rc\<rparr>)
      | (None, rc) \<Rightarrow>
          (case map_of (cached_files s) file_path of
             Some cache_dest \<Rightarrow>
               (case (if fault e = ReadFails then None else resolve (files s) cache_dest) of
                  None \<Rightarrow> (Some OSError, s\<lparr>ram_cache := rc\<rparr>)
                | Some data \<Rightarrow>
                    (None, s\<lparr>ram_cache := snd (add (mem_available e) file_path data rc)\<rparr>))
           | None \<Rightarrow> first_migration e file_path (s\<lparr>ram_cache := rc\<rparr>)))"

subsection \<open>monitor\_system\<close>




section \<open>A manager, a filesystem and readings to run the operations on\<close>

text \<open>
  A manager with the default settings (half of the free space, between 10 and 500 GiB)
  over a slow drive \<open>D:/\<close> with one file of three bytes and a cache directory
  \<open>C:/Cache\<close>; and the same manager once the file has been migrated.
\<close>

definition example_manager :: AutoCacheManager where
  "example_manager =
     \<lparr>cache_percent = exact_percent (1 / 2),
      min_cache_bytes = 10 * 1024 ^ 3,
      max_cache_bytes = 500 * 1024 ^ 3,
      cache_size_bytes = 10 * 1024 ^ 3,
      cached_files = [],
      ram_cache = \<lparr>cache = [], max_size = 1000\<rparr>,
      cache_dir = ''C:/Cache'',
      hdd_dir = ''D:/'',
      running = True,
      files = [''D:/a.exe'' \<mapsto> File [1, 2, 3]],
      copy2_calls = 0\<rparr>"


text \<open>A manager that has migrated three files.\<close>

definition three_migrated :: AutoCacheManager where
  "three_migrated =
     example_manager
       \<lparr>cached_files := [(''D:/a.exe'', ''C:/Cache/a.exe''), (''D:/b.exe'', ''C:/Cache/b.exe''),
                         (''D:/c.exe'', ''C:/Cache/c.exe'')],
        files := [''D:/a.exe'' \<mapsto> Symlink ''C:/Cache/a.exe'', ''C:/Cache/a.exe'' \<mapsto> File [1, 2, 3],
                  ''D:/b.exe'' \<mapsto> Symlink ''C:/Cache/b.exe'', ''C:/Cache/b.exe'' \<mapsto> File [4, 5],
                  ''D:/c.exe'' \<mapsto> Symlink ''C:/Cache/c.exe'', ''C:/Cache/c.exe'' \<mapsto> File [6]],
        copy2_calls := 3\<rparr>"

text \<open>Disk readings: 400 GiB free of 1000 GiB, and nothing free.\<close>

definition roomy_disk :: disk_usage where
  "roomy_disk = \<lparr>total = 1000 * 1024 ^ 3, free = 400 * 1024 ^ 3\<rparr>"

definition full_disk :: disk_usage where
  "full_disk = \<lparr>total = 1000 * 1024 ^ 3, free = 0\<rparr>"

text \<open>
  Passes of \<open>clean_cache\<close>: one where nothing fails, one where every \<open>stat\<close> raises,
  one where \<open>os.unlink\<close> raises.
\<close>

definition quiet_pass :: evict_env where
  "quiet_pass = \<lparr>st_atime = (\<lambda>f. Some 0), unlink_fails = False, move_fails = False, size_after = 0\<rparr>"


definition unlink_failing :: evict_env where
  "unlink_failing = \<lparr>st_atime = (\<lambda>f. Some 0), unlink_fails = True, move_fails = False, size_after = 0\<rparr>"

definition idle_cleaning :: clean_env where
  "idle_cleaning = \<lparr>size_before = 0, evictions = (\<lambda>i. quiet_pass)\<rparr>"

text \<open>
  A call of \<open>clean_cache\<close> that finds 20 GiB in the cache, whose first pass has a failing
  \<open>os.unlink\<close> and whose later passes succeed and find the cache empty.
\<close>

definition fail_then_quiet :: clean_env where
  "fail_then_quiet =
     \<lparr>size_before = 20 * 1024 ^ 3,
      evictions = (\<lambda>i. if i = 0 then unlink_failing else quiet_pass)\<rparr>"



text \<open>
  The readings of a call of \<open>cache_file\<close> with 1112 bytes of memory available, an empty
  cache directory, a given disk reading and a given failure.
\<close>

definition migrate_env :: "disk_usage \<Rightarrow> fault \<Rightarrow> cache_env" where
  "migrate_env u f =
     \<lparr>mem_available = 1112,
      adjust = \<lparr>usage = u, cleaning = idle_cleaning\<rparr>,
      space1 = (u, 0),
      cleaning2 = idle_cleaning,
      space2 = (u, 0),
      fault = f,
      rollback_move_fails = False\<rparr>"

section \<open>Properties of the RAM tier\<close>

lemma py_int_frac:
  assumes "0 < d"
  shows "py_int (of_int n / of_int d) = (if 0 \<le> n then n div d else - ((- n) div d))"
proof -
  have sgn: "(0 \<le> (of_int n / of_int d :: rat)) = (0 \<le> n)"
    using assms by (simp add: zero_le_divide_iff)
  have fl: "\<lfloor>(of_int n / of_int d :: rat)\<rfloor> = n div d"
    by (rule floor_divide_of_int_eq)
  have "\<lceil>(of_int n / of_int d :: rat)\<rceil> = - \<lfloor>- (of_int n / of_int d :: rat)\<rfloor>"
    by (simp add: ceiling_def)
  also have "- (of_int n / of_int d :: rat) = of_int (- n) / of_int d" by simp
  also have "\<lfloor>(of_int (- n) / of_int d :: rat)\<rfloor> = (- n) div d"
    by (rule floor_divide_of_int_eq)
  finally have ce: "\<lceil>(of_int n / of_int d :: rat)\<rceil> = - ((- n) div d)" .
  show ?thesis unfolding py_int_def sgn fl ce by simp
qed

lemma get_available_ram_int:
  "get_available_ram a = (if 0 \<le> a then (a * 9) div 10 else - ((- (a * 9)) div 10))"
proof -
  have "(of_int a * (9 / 10) :: rat) = of_int (a * 9) / of_int 10" by simp
  then show ?thesis unfolding get_available_ram_def using py_int_frac [of 10 "a * 9"] by simp
qed

lemma get_available_ram_1112: "get_available_ram 1112 = 1000"
  by (simp add: get_available_ram_int)

lemma get_available_ram_556: "get_available_ram 556 = 500"
  by (simp add: get_available_ram_int)

lemma current_size_Nil: "current_size [] = 0"
  by (simp add: current_size_def)

lemma current_size_Cons: "current_size (e # d) = int (length (snd e)) + current_size d"
  by (simp add: current_size_def)

lemma current_size_append: "current_size (d @ d') = current_size d + current_size d'"
  by (simp add: current_size_def)

lemma trim_loop_fits: "current_size d \<le> m \<Longrightarrow> trim_loop m d = d"
  by (cases d) simp_all

lemma trim_loop_idem: "trim_loop m (trim_loop m d) = trim_loop m d"
  by (induction d) simp_all

lemma trim_loop_suffix: "\<exists>pre. d = pre @ trim_loop m d"
proof (induction d)
  case Nil
  show ?case by simp
next
  case (Cons e d)
  show ?case
  proof (cases "current_size (e # d) > m")
    case True
    from Cons obtain pre where "d = pre @ trim_loop m d" by blast
    then have "e # d = (e # pre) @ trim_loop m (e # d)" using True by simp
    then show ?thesis by blast
  next
    case False
    then have "e # d = [] @ trim_loop m (e # d)" by simp
    then show ?thesis by blast
  qed
qed

lemma trim_loop_distinct: "distinct (map fst d) \<Longrightarrow> distinct (map fst (trim_loop m d))"
proof -
  assume dist: "distinct (map fst d)"
  obtain pre where "d = pre @ trim_loop m d" using trim_loop_suffix by blast
  then have "map fst d = map fst pre @ map fst (trim_loop m d)" by (metis map_append)
  with dist show ?thesis by (metis distinct_append)
qed

lemma trim_loop_bound: "trim_loop m d = [] \<or> current_size (trim_loop m d) \<le> m"
  by (induction d) simp_all

lemma od_set_move_to_end:
  "distinct (map fst d) \<Longrightarrow>
   od_move_to_end k (od_set k v d) = filter (\<lambda>e. fst e \<noteq> k) d @ [(k, v)]"
proof (induction d)
  case Nil
  show ?case by (simp add: od_move_to_end_def)
next
  case (Cons e d)
  obtain k' v' where e: "e = (k', v')" by (cases e)
  show ?case
  proof (cases "k' = k")
    case True
    with Cons.prems e have "k \<notin> fst ` set d" by simp
    then have "filter (\<lambda>e. fst e = k) d = []" "filter (\<lambda>e. fst e \<noteq> k) d = d"
      by (auto simp: filter_empty_conv filter_id_conv)
    with True e show ?thesis by (simp add: od_move_to_end_def)
  next
    case False
    with Cons e show ?thesis by (simp add: od_move_to_end_def)
  qed
qed

lemma max_size_update_max_size:
  "max_size (update_max_size available rc) = get_available_ram available"
  by (simp add: update_max_size_def trim_cache_def)

lemma cache_update_max_size:
  "cache (update_max_size available rc) = trim_loop (get_available_ram available) (cache rc)"
  by (simp add: update_max_size_def trim_cache_def)

lemma add_first_a:
  "add 1112 ''a'' (replicate 600 0) \<lparr>cache = [], max_size = 1000\<rparr>
     = (True, \<lparr>cache = [(''a'', replicate 600 0)], max_size = 1000\<rparr>)"
  by (simp add: add_def update_max_size_def trim_cache_def get_available_ram_1112
      od_move_to_end_def)

lemma add_second_b:
  "add 1112 ''b'' (replicate 500 0) \<lparr>cache = [(''a'', replicate 600 0)], max_size = 1000\<rparr>
     = (True, \<lparr>cache = [(''a'', replicate 600 0), (''b'', replicate 500 0)], max_size = 1000\<rparr>)"
  by (simp add: add_def update_max_size_def trim_cache_def get_available_ram_1112
      od_move_to_end_def current_size_def)

lemma add_oversize_evicts:
  "add 556 ''b'' (replicate 700 0) \<lparr>cache = [(''a'', replicate 600 0)], max_size = 1000\<rparr>
     = (False, \<lparr>cache = [], max_size = 500\<rparr>)"
  by (simp add: add_def update_max_size_def trim_cache_def get_available_ram_556 current_size_def)

text \<open>
  C1. The claim: after every operation of a sequence on the RAM tier, the sum of the sizes
  of the stored payloads is at most the capacity. \<open>add\<close> trims before it inserts and
  never makes room for the new payload: with 1112 bytes of memory available the capacity
  is 1000; from the empty tier, adding 600 bytes under \<open>a\<close> and then 500 bytes under
  \<open>b\<close> leaves 1100 bytes stored against a capacity of 1000.
\<close>

theorem ram_add_exceeds_capacity:
  "current_size (cache (ram_run
       [Add 1112 ''a'' (replicate 600 0), Add 1112 ''b'' (replicate 500 0)]
       \<lparr>cache = [], max_size = 1000\<rparr>)) = 1100
   \<and> max_size (ram_run
       [Add 1112 ''a'' (replicate 600 0), Add 1112 ''b'' (replicate 500 0)]
       \<lparr>cache = [], max_size = 1000\<rparr>) = 1000"
  by (simp add: ram_run_def add_first_a add_second_b current_size_def)

text \<open>
  C2. The scenario of the claim: capacity 1000, \<open>add("a", 600 bytes)\<close> succeeds, and
  \<open>add("b", 500 bytes)\<close> is to evict \<open>a\<close>. Both calls succeed, and both keys are
  present afterwards, \<open>a\<close> before \<open>b\<close>: nothing is evicted.
\<close>

theorem ram_add_scenario_keeps_a:
  "fst (add 1112 ''a'' (replicate 600 0) \<lparr>cache = [], max_size = 1000\<rparr>)
   \<and> fst (add 1112 ''b'' (replicate 500 0)
        (snd (add 1112 ''a'' (replicate 600 0) \<lparr>cache = [], max_size = 1000\<rparr>)))
   \<and> od_keys (cache (snd (add 1112 ''b'' (replicate 500 0)
        (snd (add 1112 ''a'' (replicate 600 0) \<lparr>cache = [], max_size = 1000\<rparr>)))))
      = [''a'', ''b'']"
  by (simp add: add_first_a add_second_b od_keys_def)

text \<open>
  C3, as stated, fails: \<open>add\<close> recomputes the capacity with \<open>update_max_size\<close>, which
  trims. With 600 bytes stored under \<open>a\<close> and 556 bytes of memory available (capacity
  500), adding 700 bytes under \<open>b\<close> returns \<open>False\<close> and has evicted \<open>a\<close>.
\<close>

theorem add_oversize_mutates:
  "int (length (replicate 700 (0::byte))) > get_available_ram 556
   \<and> \<not> fst (add 556 ''b'' (replicate 700 0)
          \<lparr>cache = [(''a'', replicate 600 0)], max_size = 1000\<rparr>)
   \<and> cache (snd (add 556 ''b'' (replicate 700 0)
          \<lparr>cache = [(''a'', replicate 600 0)], max_size = 1000\<rparr>))
       \<noteq> cache \<lparr>cache = [(''a'', replicate 600 0)], max_size = 1000\<rparr>"
  by (simp add: add_oversize_evicts get_available_ram_556)

text \<open>
  C3, amended. When the payload is larger than the recomputed capacity, \<open>add\<close> returns
  \<open>False\<close> and leaves the tier as \<open>update_max_size\<close> alone leaves it: the payload is not
  stored, and when the stored sizes fit the recomputed capacity the entries, their
  payloads and their order are those of before the call.
\<close>

theorem add_oversize_fails:
  assumes "int (length data) > get_available_ram available"
  shows "add available p data rc = (False, update_max_size available rc)
    \<and> (current_size (cache rc) \<le> get_available_ram available
         \<longrightarrow> cache (snd (add available p data rc)) = cache rc)"
  using assms
  by (simp add: add_def max_size_update_max_size cache_update_max_size trim_loop_fits)

theorem add_oversize_fails_witness:
  "int (length (replicate 1500 (0::byte))) > get_available_ram 1112
   \<and> current_size (cache \<lparr>cache = [(''a'', replicate 600 0)], max_size = 1000\<rparr>)
       \<le> get_available_ram 1112
   \<and> add 1112 ''b'' (replicate 1500 0) \<lparr>cache = [(''a'', replicate 600 0)], max_size = 1000\<rparr>
       = (False, update_max_size 1112 \<lparr>cache = [(''a'', replicate 600 0)], max_size = 1000\<rparr>)
   \<and> cache (snd (add 1112 ''b'' (replicate 1500 0)
         \<lparr>cache = [(''a'', replicate 600 0)], max_size = 1000\<rparr>))
       = [(''a'', replicate 600 0)]"
proof -
  have h: "int (length (replicate 1500 (0::byte))) > get_available_ram 1112"
    by (simp add: get_available_ram_1112)
  have s: "current_size (cache \<lparr>cache = [(''a'', replicate 600 0)], max_size = 1000\<rparr>)
      \<le> get_available_ram 1112"
    by (simp add: get_available_ram_1112 current_size_def)
  from add_oversize_fails [OF h, of "''b''" "\<lparr>cache = [(''a'', replicate 600 0)], max_size = 1000\<rparr>"] h s
  show ?thesis
    by (simp add: cache_update_max_size get_available_ram_1112 current_size_def)
qed

text \<open>
  C10. A successful \<open>add\<close> on a key that is present: the tier then holds the other
  entries that \<open>update_max_size\<close> kept, in their order, followed by the key with the new
  payload. So the key has exactly one entry, with the new payload, in the most recently
  used position, and the stored size is that of the other entries plus the size of the
  new payload. The keys of an \<open>OrderedDict\<close> are distinct.
\<close>

theorem add_existing_key:
  assumes dist: "distinct (od_keys (cache rc))"
    and present: "p \<in> set (od_keys (cache rc))"
    and ok: "fst (add available p data rc)"
  shows "cache (snd (add available p data rc))
           = filter (\<lambda>e. fst e \<noteq> p) (cache (update_max_size available rc)) @ [(p, data)]
    \<and> filter (\<lambda>e. fst e = p) (cache (snd (add available p data rc))) = [(p, data)]
    \<and> last (cache (snd (add available p data rc))) = (p, data)
    \<and> current_size (cache (snd (add available p data rc)))
        = current_size (filter (\<lambda>e. fst e \<noteq> p) (cache (update_max_size available rc)))
          + int (length data)"
proof -
  let ?rc1 = "update_max_size available rc"
  let ?d1 = "cache ?rc1"
  from ok have fits: "\<not> int (length data) > max_size ?rc1"
    by (auto simp: add_def Let_def split: if_splits)
  have d1: "distinct (map fst ?d1)"
    using dist by (simp add: cache_update_max_size od_keys_def trim_loop_distinct)
  have trim: "cache (trim_cache ?rc1) = ?d1"
    by (simp add: trim_cache_def max_size_update_max_size cache_update_max_size trim_loop_idem)
  have "cache (snd (add available p data rc)) = od_move_to_end p (od_set p data ?d1)"
    using fits by (simp add: add_def Let_def trim)
  then have eq: "cache (snd (add available p data rc)) = filter (\<lambda>e. fst e \<noteq> p) ?d1 @ [(p, data)]"
    using od_set_move_to_end [OF d1] by simp
  show ?thesis unfolding eq by (simp add: current_size_append current_size_def)
qed

theorem add_existing_key_witness:
  "distinct (od_keys (cache
       \<lparr>cache = [(''a'', replicate 600 0), (''b'', replicate 300 0)], max_size = 1000\<rparr>))
   \<and> ''a'' \<in> set (od_keys (cache
       \<lparr>cache = [(''a'', replicate 600 0), (''b'', replicate 300 0)], max_size = 1000\<rparr>))
   \<and> fst (add 1112 ''a'' (replicate 100 1)
       \<lparr>cache = [(''a'', replicate 600 0), (''b'', replicate 300 0)], max_size = 1000\<rparr>)
   \<and> cache (snd (add 1112 ''a'' (replicate 100 1)
         \<lparr>cache = [(''a'', replicate 600 0), (''b'', replicate 300 0)], max_size = 1000\<rparr>))
       = [(''b'', replicate 300 0), (''a'', replicate 100 1)]
   \<and> current_size (cache (snd (add 1112 ''a'' (replicate 100 1)
         \<lparr>cache = [(''a'', replicate 600 0), (''b'', replicate 300 0)], max_size = 1000\<rparr>))) = 400"
proof -
  let ?rc = "\<lparr>cache = [(''a'', replicate 600 0), (''b'', replicate 300 (0::byte))], max_size = 1000\<rparr>"
  have d: "distinct (od_keys (cache ?rc))" by (simp add: od_keys_def)
  have m: "''a'' \<in> set (od_keys (cache ?rc))" by (simp add: od_keys_def)
  have u: "update_max_size 1112 ?rc = ?rc"
    by (simp add: update_max_size_def trim_cache_def get_available_ram_1112 current_size_def)
  have ok: "fst (add 1112 ''a'' (replicate 100 1) ?rc)"
    by (simp add: add_def Let_def u)
  from add_existing_key [OF d m ok] d m ok show ?thesis
    by (simp add: u current_size_def)
qed

section \<open>Properties of the disk budget\<close>






lemma has_space_int:
  "has_space u cache_size s file_size
     = (20 * (free u - file_size) > total u \<and> cache_size + file_size \<le> cache_size_bytes s)"
proof -
  have "(of_int (free u - file_size) > of_int (total u) * (5 / 100 :: rat))
      = ((of_int (total u) :: rat) < of_int (20 * (free u - file_size)))"
    by (simp add: field_simps)
  also have "\<dots> = (total u < 20 * (free u - file_size))" by (rule of_int_less_iff)
  finally show ?thesis by (simp add: has_space_def Let_def)
qed

lemma has_space_spec_int:
  "has_space_spec u cache_size s file_size
     = (20 * (free u - file_size) \<ge> total u \<and> cache_size + file_size \<le> cache_size_bytes s)"
proof -
  have "(of_int (free u - file_size) \<ge> of_int (total u) * (5 / 100 :: rat))
      = ((of_int (total u) :: rat) \<le> of_int (20 * (free u - file_size)))"
    by (simp add: field_simps)
  also have "\<dots> = (total u \<le> 20 * (free u - file_size))" by (rule of_int_le_iff)
  finally show ?thesis by (simp add: has_space_spec_def)
qed

text \<open>
  C5, as stated, fails on the boundary: \<open>has_space\<close> compares with \<open>>\<close>. On a disk of
  100 bytes with 10 free, a file of 5 bytes leaves exactly 5% free and fits the budget;
  the specification's wording accepts it and \<open>has_space\<close> refuses it.
\<close>

theorem has_space_boundary:
  "\<not> has_space \<lparr>total = 100, free = 10\<rparr> 0 example_manager 5
   \<and> has_space_spec \<lparr>total = 100, free = 10\<rparr> 0 example_manager 5"
  by (simp add: has_space_int has_space_spec_int example_manager_def)

text \<open>
  C5, amended. \<open>has_space\<close> holds if and only if the space left after the file is
  strictly more than 5% of the total capacity (in whole numbers: twenty times what is left
  exceeds the total) and the cache usage with the file is within the budget.
\<close>

theorem has_space_iff:
  "has_space u cache_size s file_size
     = (of_int (free u - file_size) > of_int (total u) * (5 / 100 :: rat)
        \<and> cache_size + file_size \<le> cache_size_bytes s)
   \<and> has_space u cache_size s file_size
     = (20 * (free u - file_size) > total u \<and> cache_size + file_size \<le> cache_size_bytes s)"
  using has_space_int [of u cache_size s file_size] by (simp add: has_space_def Let_def)

section \<open>Properties of clean\_cache\<close>

lemma map_of_key: "k \<in> set (od_keys d) \<Longrightarrow> \<exists>v. map_of d k = Some v"
  unfolding od_keys_def by (induction d) auto

lemma except_del_present:
  "k \<in> set (od_keys (cached_files s)) \<Longrightarrow>
   except_del (Some k) s cur = Inr (Some k, s\<lparr>cached_files := od_del k (cached_files s)\<rparr>, cur)"
  by (simp add: except_del_def)

lemma clean_iter_selected:
  assumes sel: "min_by_atime (st_atime e) (od_keys (cached_files s)) = Inr k"
    and dest: "map_of (cached_files s) k = Some cache_dest"
  shows "clean_iter e oldest_file s cur =
     (if unlink_fails e \<or> files s k = None then except_del (Some k) s cur
      else
        let s1 = s\<lparr>files := (files s)(k := None)\<rparr> in
        if move_fails e \<or> files s1 cache_dest = None then except_del (Some k) s1 cur
        else
          let s2 = s1\<lparr>files := move cache_dest k (files s1)\<rparr>;
              s3 = s2\<lparr>cached_files := od_del k (cached_files s2)\<rparr>
          in Inr (Some k, s3, size_after e))"
  by (simp add: clean_iter_def sel dest)

lemma clean_iter_unlink_fails:
  assumes sel: "min_by_atime (st_atime e) (od_keys (cached_files s)) = Inr k"
    and dest: "map_of (cached_files s) k = Some cache_dest"
    and mem: "k \<in> set (od_keys (cached_files s))"
    and fails: "unlink_fails e \<or> files s k = None"
  shows "clean_iter e oldest_file s cur
     = Inr (Some k, s\<lparr>cached_files := od_del k (cached_files s)\<rparr>, cur)"
proof -
  have "clean_iter e oldest_file s cur = except_del (Some k) s cur"
    using fails by (simp add: clean_iter_selected [OF sel dest])
  then show ?thesis by (simp only: except_del_present [OF mem])
qed

lemma clean_iter_move_fails:
  assumes sel: "min_by_atime (st_atime e) (od_keys (cached_files s)) = Inr k"
    and dest: "map_of (cached_files s) k = Some cache_dest"
    and mem: "k \<in> set (od_keys (cached_files s))"
    and ok: "\<not> (unlink_fails e \<or> files s k = None)"
    and fails: "move_fails e"
  shows "clean_iter e oldest_file s cur
     = Inr (Some k, s\<lparr>files := (files s)(k := None),
                          cached_files := od_del k (cached_files s)\<rparr>, cur)"
proof -
  have "clean_iter e oldest_file s cur
      = except_del (Some k) (s\<lparr>files := (files s)(k := None)\<rparr>) cur"
    using ok fails by (auto simp: clean_iter_selected [OF sel dest] Let_def)
  moreover have "k \<in> set (od_keys (cached_files (s\<lparr>files := (files s)(k := None)\<rparr>)))"
    using mem by simp
  ultimately show ?thesis by (simp add: except_del_present)
qed

lemma clean_iter_failure_drops:
  assumes sel: "min_by_atime (st_atime e) (od_keys (cached_files s)) = Inr k"
    and fails: "unlink_fails e \<or> move_fails e"
  shows "\<exists>s'. clean_iter e oldest_file s cur = Inr (Some k, s', cur)
           \<and> cached_files s' = od_del k (cached_files s)"
proof -
  from sel have mem: "k \<in> set (od_keys (cached_files s))" by (rule min_by_atime_mem)
  from map_of_key [OF mem] obtain dest where dest: "map_of (cached_files s) k = Some dest" ..
  show ?thesis
  proof (cases "unlink_fails e \<or> files s k = None")
    case True
    show ?thesis
      by (rule exI [of _ "s\<lparr>cached_files := od_del k (cached_files s)\<rparr>"])
        (simp add: clean_iter_unlink_fails [OF sel dest mem True])
  next
    case False
    with fails have mf: "move_fails e" by simp
    show ?thesis
      by (rule exI [of _ "s\<lparr>files := (files s)(k := None),
            cached_files := od_del k (cached_files s)\<rparr>"])
        (simp add: clean_iter_move_fails [OF sel dest mem False mf])
  qed
qed

lemma clean_iter_selected_drops:
  assumes sel: "min_by_atime (st_atime e) (od_keys (cached_files s)) = Inr k"
  shows "\<exists>s' cur'. clean_iter e oldest_file s cur = Inr (Some k, s', cur')
           \<and> cached_files s' = od_del k (cached_files s)"
proof -
  from sel have mem: "k \<in> set (od_keys (cached_files s))" by (rule min_by_atime_mem)
  from map_of_key [OF mem] obtain dest where dest: "map_of (cached_files s) k = Some dest" ..
  let ?s1 = "s\<lparr>files := (files s)(k := None)\<rparr>"
  show ?thesis
  proof (cases "unlink_fails e \<or> files s k = None")
    case True
    show ?thesis
      by (intro exI [of _ "s\<lparr>cached_files := od_del k (cached_files s)\<rparr>"] exI [of _ cur])
        (simp add: clean_iter_unlink_fails [OF sel dest mem True])
  next
    case ok: False
    show ?thesis
    proof (cases "move_fails e \<or> files ?s1 dest = None")
      case True
      have mem1: "k \<in> set (od_keys (cached_files ?s1))" using mem by simp
      have "clean_iter e oldest_file s cur = except_del (Some k) ?s1 cur"
        using ok True by (auto simp: clean_iter_selected [OF sel dest] Let_def)
      then have "clean_iter e oldest_file s cur
          = Inr (Some k, ?s1\<lparr>cached_files := od_del k (cached_files ?s1)\<rparr>, cur)"
        by (simp only: except_del_present [OF mem1])
      then show ?thesis
        by (intro exI [of _ "?s1\<lparr>cached_files := od_del k (cached_files ?s1)\<rparr>"] exI [of _ cur])
          simp
    next
      case False
      let ?s3 = "?s1\<lparr>files := move dest k (files ?s1),
                       cached_files := od_del k (cached_files s)\<rparr>"
      have "clean_iter e oldest_file s cur = Inr (Some k, ?s3, size_after e)"
        using ok False by (auto simp: clean_iter_selected [OF sel dest] Let_def)
      then show ?thesis
        by (intro exI [of _ ?s3] exI [of _ "size_after e"]) simp
    qed
  qed
qed

lemma od_del_absent: "k \<notin> set (od_keys (od_del k d))"
  by (auto simp: od_keys_def od_del_def)

lemma clean_loop_exit:
  "\<not> (cur > cache_size_bytes s \<and> cached_files s \<noteq> []) \<Longrightarrow>
   clean_loop envs i oldest_file cur s = (None, i, s)"
  by (subst clean_loop.simps) auto

lemma clean_loop_passes:
  "fst (snd (clean_loop envs i oldest_file cur s)) \<le> i + length (cached_files s)"
proof (induction envs i oldest_file cur s rule: clean_loop.induct)
  case (1 envs i oldest_file cur s)
  show ?case
  proof (cases "cur > cache_size_bytes s \<and> cached_files s \<noteq> []")
    case False
    then show ?thesis by (subst clean_loop.simps) auto
  next
    case guard: True
    show ?thesis
    proof (cases "clean_iter (envs i) oldest_file s cur")
      case (Inl err)
      with guard show ?thesis by (subst clean_loop.simps) simp
    next
      case (Inr r)
      obtain o' s' cur' where r: "r = (o', s', cur')" by (cases r)
      from Inr r have it: "clean_iter (envs i) oldest_file s cur = Inr (o', s', cur')" by simp
      have short: "length (cached_files s') < length (cached_files s)"
        using it by (rule clean_iter_shorter)
      have "fst (snd (clean_loop envs (Suc i) o' cur' s')) \<le> Suc i + length (cached_files s')"
        using "1.IH" [OF guard it refl refl] .
      moreover have "clean_loop envs i oldest_file cur s = clean_loop envs (Suc i) o' cur' s'"
        using guard it by (subst clean_loop.simps) simp
      ultimately show ?thesis using short by simp
    qed
  qed
qed

lemma od_del_keysD: "x \<in> set (od_keys (od_del k d)) \<Longrightarrow> x \<in> set (od_keys d)"
  by (auto simp: od_keys_def od_del_def)

lemma od_del_keys: "set (od_keys (od_del k d)) \<subseteq> set (od_keys d)"
  by (auto dest: od_del_keysD)

lemma except_del_keeps:
  "except_del oldest_file s cur = Inr (o', s', cur') \<Longrightarrow>
   copy2_calls s' = copy2_calls s
   \<and> set (od_keys (cached_files s')) \<subseteq> set (od_keys (cached_files s))"
  by (auto simp: except_del_def split: option.splits if_splits dest: od_del_keysD)

lemma clean_iter_keeps:
  assumes "clean_iter e oldest_file s cur = Inr (o', s', cur')"
  shows "copy2_calls s' = copy2_calls s
   \<and> set (od_keys (cached_files s')) \<subseteq> set (od_keys (cached_files s))"
proof (cases "min_by_atime (st_atime e) (od_keys (cached_files s))")
  case (Inl err)
  with assms have "except_del oldest_file s cur = Inr (o', s', cur')"
    by (simp add: clean_iter_def split: if_splits)
  then show ?thesis by (rule except_del_keeps)
next
  case (Inr k)
  from map_of_key [OF min_by_atime_mem [OF Inr]]
  obtain dest where dest: "map_of (cached_files s) k = Some dest" ..
  note it = clean_iter_selected [OF Inr dest, of oldest_file cur]
  let ?s1 = "s\<lparr>files := (files s)(k := None)\<rparr>"
  consider (a) "except_del (Some k) s cur = Inr (o', s', cur')"
    | (b) "except_del (Some k) ?s1 cur = Inr (o', s', cur')"
    | (c) "s' = ?s1\<lparr>files := move dest k (files ?s1),
                     cached_files := od_del k (cached_files s)\<rparr>"
    using assms unfolding it by (auto simp: Let_def split: if_splits)
  then show ?thesis
  proof cases
    case a
    then show ?thesis by (rule except_del_keeps)
  next
    case b
    from except_del_keeps [OF b] show ?thesis by simp
  next
    case c
    then show ?thesis using od_del_keys [of k "cached_files s"] by simp
  qed
qed

lemma clean_loop_keeps:
  "copy2_calls (snd (snd (clean_loop envs i oldest_file cur s))) = copy2_calls s
   \<and> set (od_keys (cached_files (snd (snd (clean_loop envs i oldest_file cur s)))))
       \<subseteq> set (od_keys (cached_files s))"
proof (induction envs i oldest_file cur s rule: clean_loop.induct)
  case (1 envs i oldest_file cur s)
  show ?case
  proof (cases "cur > cache_size_bytes s \<and> cached_files s \<noteq> []")
    case False
    then show ?thesis by (simp add: clean_loop_exit)
  next
    case guard: True
    show ?thesis
    proof (cases "clean_iter (envs i) oldest_file s cur")
      case (Inl err)
      with guard show ?thesis by (subst (1 2) clean_loop.simps) simp
    next
      case (Inr r)
      obtain o' s' cur' where r: "r = (o', s', cur')" by (cases r)
      from Inr r have it: "clean_iter (envs i) oldest_file s cur = Inr (o', s', cur')" by simp
      note keeps = clean_iter_keeps [OF it]
      note ih = "1.IH" [OF guard it refl refl]
      have eq: "clean_loop envs i oldest_file cur s = clean_loop envs (Suc i) o' cur' s'"
        using guard it by (subst clean_loop.simps) simp
      show ?thesis unfolding eq using ih keeps by auto
    qed
  qed
qed

lemma clean_cache_keeps:
  "copy2_calls (snd (clean_cache ce s)) = copy2_calls s
   \<and> set (od_keys (cached_files (snd (clean_cache ce s)))) \<subseteq> set (od_keys (cached_files s))"
proof -
  let ?s1 = "s\<lparr>ram_cache := trim_cache (ram_cache s)\<rparr>"
  have "snd (clean_cache ce s) = snd (snd (clean_loop (evictions ce) 0 None (size_before ce) ?s1))"
    by (simp add: clean_cache_def Let_def split: prod.splits)
  with clean_loop_keeps [of "evictions ce" 0 None "size_before ce" ?s1] show ?thesis by simp
qed

lemma clean_loop_drops_selected:
  assumes guard: "cur > cache_size_bytes s"
    and sel: "min_by_atime (st_atime (envs i)) (od_keys (cached_files s)) = Inr k"
  shows "k \<notin> set (od_keys (cached_files (snd (snd (clean_loop envs i oldest_file cur s)))))"
proof -
  from min_by_atime_mem [OF sel] have ne: "cached_files s \<noteq> []" by (auto simp: od_keys_def)
  from clean_iter_selected_drops [OF sel, of oldest_file cur]
  obtain s' cur' where it: "clean_iter (envs i) oldest_file s cur = Inr (Some k, s', cur')"
    and dropped: "cached_files s' = od_del k (cached_files s)" by auto
  have eq: "clean_loop envs i oldest_file cur s = clean_loop envs (Suc i) (Some k) cur' s'"
    using guard ne it by (subst clean_loop.simps) simp
  from clean_loop_keeps [of envs "Suc i" "Some k" cur' s']
  have "set (od_keys (cached_files (snd (snd (clean_loop envs (Suc i) (Some k) cur' s')))))
      \<subseteq> set (od_keys (cached_files s'))" by simp
  moreover have "k \<notin> set (od_keys (cached_files s'))"
    unfolding dropped by (rule od_del_absent)
  ultimately show ?thesis unfolding eq by auto
qed

lemma clean_cache_drops_selected:
  assumes guard: "size_before ce > cache_size_bytes s"
    and sel: "min_by_atime (st_atime (evictions ce 0)) (od_keys (cached_files s)) = Inr k"
  shows "k \<notin> set (od_keys (cached_files (snd (clean_cache ce s))))"
proof -
  let ?s1 = "s\<lparr>ram_cache := trim_cache (ram_cache s)\<rparr>"
  have eq: "snd (clean_cache ce s) = snd (snd (clean_loop (evictions ce) 0 None (size_before ce) ?s1))"
    by (simp add: clean_cache_def Let_def split: prod.splits)
  have g: "size_before ce > cache_size_bytes ?s1" using guard by simp
  have sl: "min_by_atime (st_atime (evictions ce 0)) (od_keys (cached_files ?s1)) = Inr k"
    using sel by simp
  from clean_loop_drops_selected [where envs = "evictions ce" and i = 0 and s = ?s1
      and cur = "size_before ce" and k = k and oldest_file = None] g sl
  show ?thesis unfolding eq by simp
qed

lemma clean_cache_fail_then_quiet:
  "cached_files (snd (clean_cache fail_then_quiet three_migrated))
     = [(''D:/c.exe'', ''C:/Cache/c.exe'')]"
  apply (simp add: clean_cache_def Let_def fail_then_quiet_def three_migrated_def
      example_manager_def split: prod.splits)
  apply (subst clean_loop.simps)
  apply (simp add: clean_iter_def min_by_atime_def od_keys_def od_del_def except_del_def
      unlink_failing_def quiet_pass_def move_def Let_def)
  apply (subst clean_loop.simps)
  apply (simp add: clean_iter_def min_by_atime_def od_keys_def od_del_def except_del_def
      unlink_failing_def quiet_pass_def move_def Let_def)
  apply (subst clean_loop.simps)
  apply (simp add: clean_iter_def min_by_atime_def od_keys_def od_del_def except_del_def
      unlink_failing_def quiet_pass_def move_def Let_def)
  done

text \<open>
  C8. A pass of the loop of \<open>clean_cache\<close> either leaves the loop with an exception or
  makes \<open>cached_files\<close> strictly shorter. When \<open>os.unlink\<close> or \<open>shutil.move\<close> fails for
  the selected oldest entry, the pass still returns, with that entry dropped from
  \<open>cached_files\<close> and the usage not read again; indeed every pass that selects an
  entry drops it, whether the removal succeeds, is made to fail, or finds a path missing.
  The loop, which is a total function, stops after at most as many passes as
  \<open>cached_files\<close> has entries. The entry that a pass selects is absent from the index
  that the loop and \<open>clean_cache\<close> return, whatever the later passes do, and
  \<open>clean_cache\<close> adds no key to the index.
\<close>

theorem clean_cache_progress:
  "(case clean_iter e oldest_file s cur of
      Inl err \<Rightarrow> True
    | Inr (o', s', cur') \<Rightarrow> length (cached_files s') < length (cached_files s))
   \<and> (min_by_atime (st_atime e) (od_keys (cached_files s)) = Inr k
        \<and> (unlink_fails e \<or> move_fails e)
       \<longrightarrow> (\<exists>s'. clean_iter e oldest_file s cur = Inr (Some k, s', cur)
              \<and> cached_files s' = od_del k (cached_files s)
              \<and> k \<notin> set (od_keys (cached_files s'))))
   \<and> (min_by_atime (st_atime e) (od_keys (cached_files s)) = Inr k
       \<longrightarrow> (\<exists>s' cur'. clean_iter e oldest_file s cur = Inr (Some k, s', cur')
              \<and> cached_files s' = od_del k (cached_files s)))
   \<and> fst (snd (clean_loop envs i oldest_file cur s)) \<le> i + length (cached_files s)
   \<and> (cur > cache_size_bytes s
        \<and> min_by_atime (st_atime (envs i)) (od_keys (cached_files s)) = Inr k
       \<longrightarrow> k \<notin> set (od_keys (cached_files (snd (snd (clean_loop envs i oldest_file cur s))))))
   \<and> (size_before ce > cache_size_bytes s
        \<and> min_by_atime (st_atime (evictions ce 0)) (od_keys (cached_files s)) = Inr k
       \<longrightarrow> k \<notin> set (od_keys (cached_files (snd (clean_cache ce s)))))
   \<and> set (od_keys (cached_files (snd (clean_cache ce s)))) \<subseteq> set (od_keys (cached_files s))"
proof -
  have a: "(case clean_iter e oldest_file s cur of
      Inl err \<Rightarrow> True
    | Inr (o', s', cur') \<Rightarrow> length (cached_files s') < length (cached_files s))"
    by (auto split: sum.splits dest: clean_iter_shorter)
  have b: "min_by_atime (st_atime e) (od_keys (cached_files s)) = Inr k
        \<and> (unlink_fails e \<or> move_fails e)
       \<longrightarrow> (\<exists>s'. clean_iter e oldest_file s cur = Inr (Some k, s', cur)
              \<and> cached_files s' = od_del k (cached_files s)
              \<and> k \<notin> set (od_keys (cached_files s')))"
    using clean_iter_failure_drops [of e s k oldest_file cur] od_del_absent [of k "cached_files s"]
    by auto
  have c: "min_by_atime (st_atime e) (od_keys (cached_files s)) = Inr k
       \<longrightarrow> (\<exists>s' cur'. clean_iter e oldest_file s cur = Inr (Some k, s', cur')
              \<and> cached_files s' = od_del k (cached_files s))"
    using clean_iter_selected_drops [of e s k oldest_file cur] by (intro impI)
  have d: "cur > cache_size_bytes s
        \<and> min_by_atime (st_atime (envs i)) (od_keys (cached_files s)) = Inr k
       \<longrightarrow> k \<notin> set (od_keys (cached_files (snd (snd (clean_loop envs i oldest_file cur s)))))"
    using clean_loop_drops_selected [of s cur envs i k oldest_file] by simp
  have f: "size_before ce > cache_size_bytes s
        \<and> min_by_atime (st_atime (evictions ce 0)) (od_keys (cached_files s)) = Inr k
       \<longrightarrow> k \<notin> set (od_keys (cached_files (snd (clean_cache ce s))))"
    using clean_cache_drops_selected [of s ce k] by simp
  have g: "set (od_keys (cached_files (snd (clean_cache ce s)))) \<subseteq> set (od_keys (cached_files s))"
    using clean_cache_keeps [of ce s] by simp
  from a b c clean_loop_passes [of envs i oldest_file cur s] d f g show ?thesis
    by (intro conjI)
qed

theorem clean_cache_progress_witness:
  "min_by_atime (st_atime unlink_failing) (od_keys (cached_files three_migrated)) = Inr ''D:/a.exe''
   \<and> (unlink_fails unlink_failing \<or> move_fails unlink_failing)
   \<and> (\<exists>s'. clean_iter unlink_failing None three_migrated (20 * 1024 ^ 3)
               = Inr (Some ''D:/a.exe'', s', 20 * 1024 ^ 3)
            \<and> cached_files s' = [(''D:/b.exe'', ''C:/Cache/b.exe''), (''D:/c.exe'', ''C:/Cache/c.exe'')]
            \<and> ''D:/a.exe'' \<notin> set (od_keys (cached_files s')))
   \<and> size_before fail_then_quiet > cache_size_bytes three_migrated
   \<and> min_by_atime (st_atime (evictions fail_then_quiet 0)) (od_keys (cached_files three_migrated))
       = Inr ''D:/a.exe''
   \<and> ''D:/a.exe'' \<notin> set (od_keys (cached_files (snd (clean_cache fail_then_quiet three_migrated))))
   \<and> cached_files (snd (clean_cache fail_then_quiet three_migrated))
       = [(''D:/c.exe'', ''C:/Cache/c.exe'')]
   \<and> ''D:/a.exe'' \<notin> set (od_keys (cached_files (snd (snd
         (clean_loop (evictions fail_then_quiet) 0 None (20 * 1024 ^ 3) three_migrated)))))
   \<and> fst (snd (clean_loop (evictions fail_then_quiet) 0 None (20 * 1024 ^ 3) three_migrated)) \<le> 3"
proof -
  have sel: "min_by_atime (st_atime unlink_failing) (od_keys (cached_files three_migrated))
      = Inr ''D:/a.exe''"
    by (simp add: min_by_atime_def unlink_failing_def three_migrated_def od_keys_def)
  have sel0: "min_by_atime (st_atime (evictions fail_then_quiet 0))
      (od_keys (cached_files three_migrated)) = Inr ''D:/a.exe''"
    using sel by (simp add: fail_then_quiet_def)
  have fl: "unlink_fails unlink_failing \<or> move_fails unlink_failing"
    by (simp add: unlink_failing_def)
  have g: "size_before fail_then_quiet > cache_size_bytes three_migrated"
    by (simp add: fail_then_quiet_def three_migrated_def example_manager_def)
  have g': "20 * 1024 ^ 3 > cache_size_bytes three_migrated"
    by (simp add: three_migrated_def example_manager_def)
  have d: "od_del ''D:/a.exe'' (cached_files three_migrated)
      = [(''D:/b.exe'', ''C:/Cache/b.exe''), (''D:/c.exe'', ''C:/Cache/c.exe'')]"
    by (simp add: od_del_def three_migrated_def)
  have l: "length (cached_files three_migrated) = 3"
    by (simp add: three_migrated_def)
  from clean_cache_progress [where e = unlink_failing and oldest_file = None
      and s = three_migrated and cur = "20 * 1024 ^ 3" and k = "''D:/a.exe''"
      and envs = "evictions fail_then_quiet" and i = 0 and ce = fail_then_quiet]
    sel sel0 fl g g'
  show ?thesis unfolding d l by (simp add: clean_cache_fail_then_quiet)
qed

section \<open>Properties of monitor\_system\<close>








section \<open>Properties of cache\_file\<close>

lemmas eval_defs =
  cache_file_def first_migration_def migrate_def try_migrate_def rollback_def
  adjust_cache_size_def clean_cache_def new_size_def proposed_size_def clamp_size_def
  has_space_int get_def add_def update_max_size_def trim_cache_def od_keys_def
  od_move_to_end_def current_size_def get_available_ram_1112
  relative_to_def joinpath_def resolve_def exists_def move_def
  migrate_env_def roomy_disk_def full_disk_def idle_cleaning_def quiet_pass_def
  example_manager_def py_int_def int_times_def exact_percent_def Let_def clean_loop_exit

text \<open>
  C7. The claim: an I/O failure in the migration is rolled back and the content of the
  origin path is not lost. When \<open>shutil.copy2\<close> fails after writing one of the three
  bytes, the \<open>except\<close> branch finds the partial copy at the destination and moves it
  onto the origin path, over the intact original: \<open>cache_file\<close> returns normally, no
  index entry is recorded, nothing is left at the destination, and the origin path holds
  one byte instead of three.
\<close>

theorem migrate_copy_failure_loses_content:
  "fst (cache_file (migrate_env roomy_disk (CopyFails (Some 1))) ''D:/a.exe'' example_manager) = None
   \<and> resolve (files example_manager) ''D:/a.exe'' = Some [1, 2, 3]
   \<and> resolve (files (snd (cache_file (migrate_env roomy_disk (CopyFails (Some 1)))
          ''D:/a.exe'' example_manager))) ''D:/a.exe'' = Some [1]
   \<and> \<not> exists (files (snd (cache_file (migrate_env roomy_disk (CopyFails (Some 1)))
          ''D:/a.exe'' example_manager))) ''C:/Cache/a.exe''
   \<and> cached_files (snd (cache_file (migrate_env roomy_disk (CopyFails (Some 1)))
          ''D:/a.exe'' example_manager)) = []"
  by (simp add: eval_defs)

lemma cache_file_full_disk:
  "cached_files s = [] \<Longrightarrow> cache (ram_cache s) = [] \<Longrightarrow> hdd_dir s = ''D:/'' \<Longrightarrow>
   resolve (files s) ''D:/a.exe'' = Some [1, 2, 3] \<Longrightarrow>
   cache_percent s = exact_percent (1 / 2) \<Longrightarrow> min_cache_bytes s = 10 * 1024 ^ 3 \<Longrightarrow>
   max_cache_bytes s = 500 * 1024 ^ 3 \<Longrightarrow> cache_size_bytes s = 10 * 1024 ^ 3 \<Longrightarrow>
   cache_file (migrate_env full_disk NoFault) ''D:/a.exe'' s
     = (None, s\<lparr>ram_cache := trim_cache (ram_cache s)\<rparr>)"
  by (simp add: cache_file_def first_migration_def 
  adjust_cache_size_def clean_cache_def new_size_def proposed_size_def clamp_size_def
  has_space_int get_def od_keys_def
  relative_to_def joinpath_def 
  migrate_env_def full_disk_def idle_cleaning_def quiet_pass_def
  py_int_def int_times_def exact_percent_def Let_def clean_loop_exit)

text \<open>
  C6, as stated, fails: when the fast disk has no space, \<open>cache_file\<close> leaves the file
  where it is. Two calls on the same path then record no index entry and make no copy.
\<close>

theorem cache_file_twice_full_disk:
  "cached_files (snd (cache_file (migrate_env full_disk NoFault) ''D:/a.exe''
       (snd (cache_file (migrate_env full_disk NoFault) ''D:/a.exe'' example_manager)))) = []
   \<and> copy2_calls (snd (cache_file (migrate_env full_disk NoFault) ''D:/a.exe''
       (snd (cache_file (migrate_env full_disk NoFault) ''D:/a.exe'' example_manager)))) = 0"
proof -
  let ?s1 = "example_manager\<lparr>ram_cache := trim_cache (ram_cache example_manager)\<rparr>"
  have c1: "cache_file (migrate_env full_disk NoFault) ''D:/a.exe'' example_manager = (None, ?s1)"
    by (rule cache_file_full_disk) (simp_all add: example_manager_def resolve_def)
  have c2: "cache_file (migrate_env full_disk NoFault) ''D:/a.exe'' ?s1
      = (None, ?s1\<lparr>ram_cache := trim_cache (ram_cache ?s1)\<rparr>)"
    by (rule cache_file_full_disk) (simp_all add: example_manager_def resolve_def trim_cache_def)
  show ?thesis unfolding c1 snd_conv c2 by (simp add: example_manager_def)
qed

lemma adjust_cache_size_keeps:
  "copy2_calls (snd (adjust_cache_size ae s)) = copy2_calls s
   \<and> set (od_keys (cached_files (snd (adjust_cache_size ae s)))) \<subseteq> set (od_keys (cached_files s))"
proof -
  let ?n = "new_size (usage ae) (cache_percent s) (min_cache_bytes s) (max_cache_bytes s)"
  show ?thesis
  proof (cases "\<bar>?n - cache_size_bytes s\<bar> > 1024 ^ 3")
    case True
    then have "adjust_cache_size ae s = clean_cache (cleaning ae) (s\<lparr>cache_size_bytes := ?n\<rparr>)"
      by (simp add: adjust_cache_size_def Let_def)
    with clean_cache_keeps [of "cleaning ae" "s\<lparr>cache_size_bytes := ?n\<rparr>"] show ?thesis by simp
  next
    case False
    then show ?thesis by (simp add: adjust_cache_size_def Let_def)
  qed
qed

lemma try_migrate_done:
  "try_migrate e p dest s = (True, s') \<Longrightarrow>
   copy2_calls s' = Suc (copy2_calls s) \<and> cached_files s' = od_set p dest (cached_files s)"
  by (auto simp: try_migrate_def Let_def split: option.splits if_splits fault.splits)

lemma try_migrate_raised:
  "try_migrate e p dest s = (False, s') \<Longrightarrow> cached_files s' = cached_files s"
  by (auto simp: try_migrate_def Let_def split: option.splits if_splits fault.splits)

lemma rollback_index: "cached_files (snd (rollback e p dest s)) = cached_files s"
  by (simp add: rollback_def)

lemma migrate_recorded:
  assumes "p \<in> set (od_keys (cached_files (snd (migrate e p dest s))))"
    and "p \<notin> set (od_keys (cached_files s))"
  shows "copy2_calls (snd (migrate e p dest s)) = Suc (copy2_calls s)
    \<and> cached_files (snd (migrate e p dest s)) = od_set p dest (cached_files s)"
proof (cases "try_migrate e p dest s")
  case (Pair ok s')
  show ?thesis
  proof (cases ok)
    case True
    with Pair try_migrate_done [of e p dest s s'] show ?thesis by (simp add: migrate_def)
  next
    case False
    with Pair have "cached_files (snd (migrate e p dest s)) = cached_files s"
      using try_migrate_raised [of e p dest s s'] rollback_index [of e p dest s']
      by (simp add: migrate_def)
    with assms show ?thesis by simp
  qed
qed

lemma od_set_fresh:
  "p \<notin> set (od_keys d) \<Longrightarrow> filter (\<lambda>x. fst x = p) (od_set p v d) = [(p, v)]"
  by (induction d) (auto simp: od_keys_def)

lemma first_migration_recorded:
  assumes fresh: "p \<notin> set (od_keys (cached_files s))"
    and rec: "p \<in> set (od_keys (cached_files (snd (first_migration e p s))))"
  shows "copy2_calls (snd (first_migration e p s)) = Suc (copy2_calls s)
    \<and> length (filter (\<lambda>x. fst x = p) (cached_files (snd (first_migration e p s)))) = 1"
proof (cases "relative_to p (hdd_dir s)")
  case None
  with fresh rec show ?thesis by (simp add: first_migration_def)
next
  case (Some rel)
  let ?dest = "joinpath (cache_dir s) rel"
  show ?thesis
  proof (cases "resolve (files s) p")
    case None
    with Some fresh rec show ?thesis by (simp add: first_migration_def)
  next
    case content: (Some content)
    let ?size = "int (length content)"
    obtain r1 s1 where a: "adjust_cache_size (adjust e) s = (r1, s1)"
      by (cases "adjust_cache_size (adjust e) s")
    from adjust_cache_size_keeps [of "adjust e" s] a
    have k1: "copy2_calls s1 = copy2_calls s"
      "set (od_keys (cached_files s1)) \<subseteq> set (od_keys (cached_files s))" by simp_all
    with fresh have f1: "p \<notin> set (od_keys (cached_files s1))" by auto
    obtain r2 s2 where c: "clean_cache (cleaning2 e) s1 = (r2, s2)"
      by (cases "clean_cache (cleaning2 e) s1")
    from clean_cache_keeps [of "cleaning2 e" s1] c
    have k2: "copy2_calls s2 = copy2_calls s1"
      "set (od_keys (cached_files s2)) \<subseteq> set (od_keys (cached_files s1))" by simp_all
    with f1 have f2: "p \<notin> set (od_keys (cached_files s2))" by auto
    have unfold: "first_migration e p s =
       (case r1 of
          Some err \<Rightarrow> (Some err, s1)
        | None \<Rightarrow>
            if has_space (fst (space1 e)) (snd (space1 e)) s1 ?size
            then migrate e p ?dest s1
            else
              (case r2 of
                 Some err \<Rightarrow> (Some err, s2)
               | None \<Rightarrow>
                   if has_space (fst (space2 e)) (snd (space2 e)) s2 ?size
                   then migrate e p ?dest s2
                   else (None, s2)))"
      by (simp add: first_migration_def Some content a c Let_def split: option.splits)
    have m1: ?thesis if eq: "first_migration e p s = migrate e p ?dest s1"
    proof -
      from rec eq have "p \<in> set (od_keys (cached_files (snd (migrate e p ?dest s1))))" by simp
      from migrate_recorded [OF this f1] eq k1 od_set_fresh [OF f1, of ?dest]
      show ?thesis by simp
    qed
    have m2: ?thesis if eq: "first_migration e p s = migrate e p ?dest s2"
    proof -
      from rec eq have "p \<in> set (od_keys (cached_files (snd (migrate e p ?dest s2))))" by simp
      from migrate_recorded [OF this f2] eq k1 k2 od_set_fresh [OF f2, of ?dest]
      show ?thesis by simp
    qed
    have n1: ?thesis if "snd (first_migration e p s) = s1"
      using that rec f1 by simp
    have n2: ?thesis if "snd (first_migration e p s) = s2"
      using that rec f2 by simp
    show ?thesis
    proof (cases r1)
      case (Some err)
      then show ?thesis using unfold n1 by simp
    next
      case r1: None
      show ?thesis
      proof (cases "has_space (fst (space1 e)) (snd (space1 e)) s1 ?size")
        case True
        with r1 unfold m1 show ?thesis by simp
      next
        case no1: False
        show ?thesis
        proof (cases r2)
          case (Some err)
          with r1 no1 unfold n2 show ?thesis by simp
        next
          case r2: None
          show ?thesis
          proof (cases "has_space (fst (space2 e)) (snd (space2 e)) s2 ?size")
            case True
            with r1 no1 r2 unfold m2 show ?thesis by simp
          next
            case False
            with r1 no1 r2 unfold n2 show ?thesis by simp
          qed
        qed
      qed
    qed
  qed
qed

lemma get_miss: "p \<notin> set (od_keys (cache rc)) \<Longrightarrow> get p rc = (None, rc)"
  by (simp add: get_def)

lemma cache_file_index_cases:
  "p \<notin> set (od_keys (cached_files s)) \<Longrightarrow>
   cached_files (snd (cache_file e p s)) = cached_files s
   \<and> copy2_calls (snd (cache_file e p s)) = copy2_calls s
   \<or> (\<exists>rc. cache_file e p s = first_migration e p (s\<lparr>ram_cache := rc\<rparr>))"
  by (auto simp: cache_file_def od_keys_def map_of_eq_None_iff split: prod.splits option.splits)

lemma cache_file_recorded:
  assumes fresh: "p \<notin> set (od_keys (cached_files s))"
    and rec: "p \<in> set (od_keys (cached_files (snd (cache_file e p s))))"
  shows "copy2_calls (snd (cache_file e p s)) = Suc (copy2_calls s)
    \<and> length (filter (\<lambda>x. fst x = p) (cached_files (snd (cache_file e p s)))) = 1"
proof -
  from cache_file_index_cases [OF fresh, of e] fresh rec
  obtain rc where eq: "cache_file e p s = first_migration e p (s\<lparr>ram_cache := rc\<rparr>)"
    by auto
  let ?s0 = "s\<lparr>ram_cache := rc\<rparr>"
  have f0: "p \<notin> set (od_keys (cached_files ?s0))" using fresh by simp
  have r0: "p \<in> set (od_keys (cached_files (snd (first_migration e p ?s0))))"
    using rec eq by simp
  from first_migration_recorded [OF f0 r0] show ?thesis unfolding eq by simp
qed

lemma cache_file_again:
  assumes "p \<in> set (od_keys (cached_files s))"
  shows "cached_files (snd (cache_file e p s)) = cached_files s
    \<and> files (snd (cache_file e p s)) = files s
    \<and> copy2_calls (snd (cache_file e p s)) = copy2_calls s"
proof -
  from map_of_key [OF assms] obtain dest where "map_of (cached_files s) p = Some dest" ..
  then show ?thesis
    by (simp add: cache_file_def split: prod.splits option.splits)
qed

lemma cache_file_roomy:
  "cached_files (snd (cache_file (migrate_env roomy_disk NoFault) ''D:/a.exe'' example_manager))
     = [(''D:/a.exe'', ''C:/Cache/a.exe'')]"
  by (simp add: eval_defs)

lemma except_del_budget:
  "except_del oldest_file s cur = Inr (o', s', cur') \<Longrightarrow> cache_size_bytes s' = cache_size_bytes s"
  by (auto simp: except_del_def split: option.splits if_splits)

lemma clean_iter_budget:
  assumes "clean_iter e oldest_file s cur = Inr (o', s', cur')"
  shows "cache_size_bytes s' = cache_size_bytes s"
proof (cases "min_by_atime (st_atime e) (od_keys (cached_files s))")
  case (Inl err)
  with assms have "except_del oldest_file s cur = Inr (o', s', cur')"
    by (simp add: clean_iter_def split: if_splits)
  then show ?thesis by (rule except_del_budget)
next
  case (Inr k)
  from map_of_key [OF min_by_atime_mem [OF Inr]]
  obtain dest where dest: "map_of (cached_files s) k = Some dest" ..
  note it = clean_iter_selected [OF Inr dest, of oldest_file cur]
  let ?s1 = "s\<lparr>files := (files s)(k := None)\<rparr>"
  consider (a) "except_del (Some k) s cur = Inr (o', s', cur')"
    | (b) "except_del (Some k) ?s1 cur = Inr (o', s', cur')"
    | (c) "s' = ?s1\<lparr>files := move dest k (files ?s1),
                     cached_files := od_del k (cached_files s)\<rparr>"
    using assms unfolding it by (auto simp: Let_def split: if_splits)
  then show ?thesis
  proof cases
    case a
    then show ?thesis by (rule except_del_budget)
  next
    case b
    from except_del_budget [OF b] show ?thesis by simp
  next
    case c
    then show ?thesis by simp
  qed
qed

lemma clean_loop_budget:
  "cache_size_bytes (snd (snd (clean_loop envs i oldest_file cur s))) = cache_size_bytes s"
proof (induction envs i oldest_file cur s rule: clean_loop.induct)
  case (1 envs i oldest_file cur s)
  show ?case
  proof (cases "cur > cache_size_bytes s \<and> cached_files s \<noteq> []")
    case False
    then show ?thesis by (simp add: clean_loop_exit)
  next
    case guard: True
    show ?thesis
    proof (cases "clean_iter (envs i) oldest_file s cur")
      case (Inl err)
      with guard show ?thesis by (subst clean_loop.simps) simp
    next
      case (Inr r)
      obtain o' s' cur' where r: "r = (o', s', cur')" by (cases r)
      from Inr r have it: "clean_iter (envs i) oldest_file s cur = Inr (o', s', cur')" by simp
      note ih = "1.IH" [OF guard it refl refl]
      have eq: "clean_loop envs i oldest_file cur s = clean_loop envs (Suc i) o' cur' s'"
        using guard it by (subst clean_loop.simps) simp
      show ?thesis unfolding eq using ih clean_iter_budget [OF it] by simp
    qed
  qed
qed

lemma clean_cache_budget: "cache_size_bytes (snd (clean_cache ce s)) = cache_size_bytes s"
proof -
  let ?s1 = "s\<lparr>ram_cache := trim_cache (ram_cache s)\<rparr>"
  have "snd (clean_cache ce s) = snd (snd (clean_loop (evictions ce) 0 None (size_before ce) ?s1))"
    by (simp add: clean_cache_def Let_def split: prod.splits)
  with clean_loop_budget [of "evictions ce" 0 None "size_before ce" ?s1] show ?thesis by simp
qed

lemma has_space_budget:
  "cache_size_bytes s' = cache_size_bytes s \<Longrightarrow>
   has_space u cache_size s' file_size = has_space u cache_size s file_size"
  by (simp add: has_space_def)

lemma try_migrate_fault: "fault e \<noteq> NoFault \<Longrightarrow> fst (try_migrate e p dest s) = False"
  by (cases "fault e") (auto simp: try_migrate_def Let_def split: option.splits)

lemma migrate_fault:
  assumes "fault e \<noteq> NoFault"
  shows "cached_files (snd (migrate e p dest s)) = cached_files s"
proof (cases "try_migrate e p dest s")
  case (Pair ok s')
  with try_migrate_fault [OF assms, of p dest s] have "ok = False" by simp
  with Pair try_migrate_raised [of e p dest s s'] rollback_index [of e p dest s']
  show ?thesis by (simp add: migrate_def)
qed

lemma first_migration_cases:
  "\<exists>s'. set (od_keys (cached_files s')) \<subseteq> set (od_keys (cached_files s))
      \<and> (snd (first_migration e p s) = s' \<or> (\<exists>dest. first_migration e p s = migrate e p dest s'))"
proof (cases "relative_to p (hdd_dir s)")
  case None
  then have "snd (first_migration e p s) = s" by (simp add: first_migration_def)
  then show ?thesis by (intro exI [of _ s]) simp
next
  case (Some rel)
  let ?dest = "joinpath (cache_dir s) rel"
  show ?thesis
  proof (cases "resolve (files s) p")
    case None
    with Some have "snd (first_migration e p s) = s" by (simp add: first_migration_def)
    then show ?thesis by (intro exI [of _ s]) simp
  next
    case content: (Some content)
    let ?size = "int (length content)"
    obtain r1 s1 where a: "adjust_cache_size (adjust e) s = (r1, s1)"
      by (cases "adjust_cache_size (adjust e) s")
    from adjust_cache_size_keeps [of "adjust e" s] a
    have k1: "set (od_keys (cached_files s1)) \<subseteq> set (od_keys (cached_files s))" by simp
    obtain r2 s2 where c: "clean_cache (cleaning2 e) s1 = (r2, s2)"
      by (cases "clean_cache (cleaning2 e) s1")
    from clean_cache_keeps [of "cleaning2 e" s1] c k1
    have k2: "set (od_keys (cached_files s2)) \<subseteq> set (od_keys (cached_files s))" by auto
    have unfold: "first_migration e p s =
       (case r1 of
          Some err \<Rightarrow> (Some err, s1)
        | None \<Rightarrow>
            if has_space (fst (space1 e)) (snd (space1 e)) s1 ?size
            then migrate e p ?dest s1
            else
              (case r2 of
                 Some err \<Rightarrow> (Some err, s2)
               | None \<Rightarrow>
                   if has_space (fst (space2 e)) (snd (space2 e)) s2 ?size
                   then migrate e p ?dest s2
                   else (None, s2)))"
      by (simp add: first_migration_def Some content a c Let_def split: option.splits)
    have via1: ?thesis if "snd (first_migration e p s) = s1 \<or> first_migration e p s = migrate e p ?dest s1"
      using that k1 by (intro exI [of _ s1]) auto
    have via2: ?thesis if "snd (first_migration e p s) = s2 \<or> first_migration e p s = migrate e p ?dest s2"
      using that k2 by (intro exI [of _ s2]) auto
    show ?thesis
    proof (cases r1)
      case (Some err)
      then show ?thesis using unfold via1 by simp
    next
      case r1: None
      show ?thesis
      proof (cases "has_space (fst (space1 e)) (snd (space1 e)) s1 ?size")
        case True
        with r1 unfold via1 show ?thesis by simp
      next
        case no1: False
        show ?thesis
        proof (cases r2)
          case (Some err)
          with r1 no1 unfold via2 show ?thesis by simp
        next
          case r2: None
          show ?thesis
          proof (cases "has_space (fst (space2 e)) (snd (space2 e)) s2 ?size")
            case True
            with r1 no1 r2 unfold via2 show ?thesis by simp
          next
            case False
            with r1 no1 r2 unfold via2 show ?thesis by simp
          qed
        qed
      qed
    qed
  qed
qed

lemma first_migration_fault:
  assumes fresh: "p \<notin> set (od_keys (cached_files s))" and flt: "fault e \<noteq> NoFault"
  shows "p \<notin> set (od_keys (cached_files (snd (first_migration e p s))))"
proof -
  from first_migration_cases [of s e p]
  obtain s' where sub: "set (od_keys (cached_files s')) \<subseteq> set (od_keys (cached_files s))"
    and alt: "snd (first_migration e p s) = s' \<or> (\<exists>dest. first_migration e p s = migrate e p dest s')"
    by auto
  from sub fresh have f': "p \<notin> set (od_keys (cached_files s'))" by auto
  from alt show ?thesis
  proof
    assume "snd (first_migration e p s) = s'"
    with f' show ?thesis by simp
  next
    assume "\<exists>dest. first_migration e p s = migrate e p dest s'"
    then obtain dest where "first_migration e p s = migrate e p dest s'" ..
    with migrate_fault [OF flt, of p dest s'] f' show ?thesis by simp
  qed
qed

lemma first_migration_no_space:
  assumes content: "resolve (files s) p = Some content"
    and no1: "\<not> has_space (fst (space1 e)) (snd (space1 e))
               (snd (adjust_cache_size (adjust e) s)) (int (length content))"
    and no2: "\<not> has_space (fst (space2 e)) (snd (space2 e))
               (snd (adjust_cache_size (adjust e) s)) (int (length content))"
  shows "set (od_keys (cached_files (snd (first_migration e p s)))) \<subseteq> set (od_keys (cached_files s))
    \<and> copy2_calls (snd (first_migration e p s)) = copy2_calls s"
proof (cases "relative_to p (hdd_dir s)")
  case None
  then show ?thesis by (simp add: first_migration_def)
next
  case (Some rel)
  let ?size = "int (length content)"
  obtain r1 s1 where a: "adjust_cache_size (adjust e) s = (r1, s1)"
    by (cases "adjust_cache_size (adjust e) s")
  from adjust_cache_size_keeps [of "adjust e" s] a
  have k1: "copy2_calls s1 = copy2_calls s"
    "set (od_keys (cached_files s1)) \<subseteq> set (od_keys (cached_files s))" by simp_all
  obtain r2 s2 where c: "clean_cache (cleaning2 e) s1 = (r2, s2)"
    by (cases "clean_cache (cleaning2 e) s1")
  from clean_cache_keeps [of "cleaning2 e" s1] c k1
  have k2: "copy2_calls s2 = copy2_calls s"
    "set (od_keys (cached_files s2)) \<subseteq> set (od_keys (cached_files s))" by auto
  from clean_cache_budget [of "cleaning2 e" s1] c
  have b2: "cache_size_bytes s2 = cache_size_bytes s1" by simp
  from no1 a have n1: "\<not> has_space (fst (space1 e)) (snd (space1 e)) s1 ?size" by simp
  from no2 a has_space_budget [OF b2]
  have n2: "\<not> has_space (fst (space2 e)) (snd (space2 e)) s2 ?size" by simp
  have "snd (first_migration e p s) = s1 \<or> snd (first_migration e p s) = s2"
    using n1 n2 by (simp add: first_migration_def Some content a c Let_def split: option.splits)
  with k1 k2 show ?thesis by auto
qed

lemma get_none: "get p rc = (None, rc') \<Longrightarrow> rc' = rc"
  by (auto simp: get_def od_keys_def map_of_eq_None_iff split: if_splits)

lemma cache_file_fresh_cases:
  assumes "p \<notin> set (od_keys (cached_files s))"
  shows "cached_files (snd (cache_file e p s)) = cached_files s
      \<and> copy2_calls (snd (cache_file e p s)) = copy2_calls s
    \<or> cache_file e p s = first_migration e p s"
proof (cases "get p (ram_cache s)")
  case (Pair r rc)
  show ?thesis
  proof (cases r)
    case (Some ram_data)
    with Pair show ?thesis by (simp add: cache_file_def)
  next
    case None
    with Pair get_none [of p "ram_cache s" rc] have rc: "rc = ram_cache s" by simp
    from assms have "map_of (cached_files s) p = None"
      by (simp add: od_keys_def map_of_eq_None_iff)
    with Pair None rc show ?thesis by (simp add: cache_file_def)
  qed
qed

lemma cache_file_fault:
  assumes fresh: "p \<notin> set (od_keys (cached_files s))" and flt: "fault e \<noteq> NoFault"
  shows "p \<notin> set (od_keys (cached_files (snd (cache_file e p s))))"
  using cache_file_fresh_cases [OF fresh, of e] first_migration_fault [OF fresh flt] fresh
  by auto

lemma cache_file_no_space:
  assumes fresh: "p \<notin> set (od_keys (cached_files s))"
    and content: "resolve (files s) p = Some content"
    and no1: "\<not> has_space (fst (space1 e)) (snd (space1 e))
               (snd (adjust_cache_size (adjust e) s)) (int (length content))"
    and no2: "\<not> has_space (fst (space2 e)) (snd (space2 e))
               (snd (adjust_cache_size (adjust e) s)) (int (length content))"
  shows "p \<notin> set (od_keys (cached_files (snd (cache_file e p s))))
    \<and> copy2_calls (snd (cache_file e p s)) = copy2_calls s"
  using cache_file_fresh_cases [OF fresh, of e] first_migration_no_space [OF content no1 no2] fresh
  by auto

lemma cache_file_symlink_fails:
  "resolve (files (snd (cache_file (migrate_env roomy_disk SymlinkFails) ''D:/a.exe''
       example_manager))) ''D:/a.exe'' = Some [1, 2, 3]
   \<and> copy2_calls (snd (cache_file (migrate_env roomy_disk SymlinkFails) ''D:/a.exe''
       example_manager)) = 1"
  by (simp add: eval_defs)

text \<open>
  C6, amended. For a path that has no index entry: when a call of \<open>cache_file\<close> records
  one, that call has made exactly one copy and the index holds exactly one entry for the
  path; a further call on the path, whatever the readings and failures, makes no copy and
  changes neither the index nor the filesystem. When the call aborts, no entry is
  recorded for the path: that is so when a step of the migration raises an I/O error, and
  when both calls of \<open>has_space\<close> refuse the file, in which case no copy is made either.
\<close>

theorem cache_file_idempotent:
  assumes fresh: "p \<notin> set (od_keys (cached_files s))"
  shows "(p \<in> set (od_keys (cached_files (snd (cache_file e1 p s))))
      \<longrightarrow> copy2_calls (snd (cache_file e1 p s)) = Suc (copy2_calls s)
        \<and> length (filter (\<lambda>x. fst x = p) (cached_files (snd (cache_file e1 p s)))) = 1
        \<and> cached_files (snd (cache_file e2 p (snd (cache_file e1 p s))))
            = cached_files (snd (cache_file e1 p s))
        \<and> files (snd (cache_file e2 p (snd (cache_file e1 p s))))
            = files (snd (cache_file e1 p s))
        \<and> copy2_calls (snd (cache_file e2 p (snd (cache_file e1 p s)))) = Suc (copy2_calls s))
    \<and> (fault e1 \<noteq> NoFault
      \<longrightarrow> p \<notin> set (od_keys (cached_files (snd (cache_file e1 p s)))))
    \<and> (resolve (files s) p = Some content
        \<and> \<not> has_space (fst (space1 e1)) (snd (space1 e1))
              (snd (adjust_cache_size (adjust e1) s)) (int (length content))
        \<and> \<not> has_space (fst (space2 e1)) (snd (space2 e1))
              (snd (adjust_cache_size (adjust e1) s)) (int (length content))
      \<longrightarrow> p \<notin> set (od_keys (cached_files (snd (cache_file e1 p s))))
        \<and> copy2_calls (snd (cache_file e1 p s)) = copy2_calls s)"
proof (intro conjI impI)
  assume rec: "p \<in> set (od_keys (cached_files (snd (cache_file e1 p s))))"
  note first = cache_file_recorded [OF fresh rec]
  note again = cache_file_again [OF rec, of e2]
  from first show "copy2_calls (snd (cache_file e1 p s)) = Suc (copy2_calls s)" by simp
  from first show "length (filter (\<lambda>x. fst x = p) (cached_files (snd (cache_file e1 p s)))) = 1"
    by simp
  from again show "cached_files (snd (cache_file e2 p (snd (cache_file e1 p s))))
      = cached_files (snd (cache_file e1 p s))" by simp
  from again show "files (snd (cache_file e2 p (snd (cache_file e1 p s))))
      = files (snd (cache_file e1 p s))" by simp
  from first again show "copy2_calls (snd (cache_file e2 p (snd (cache_file e1 p s))))
      = Suc (copy2_calls s)" by simp
next
  assume "fault e1 \<noteq> NoFault"
  with fresh show "p \<notin> set (od_keys (cached_files (snd (cache_file e1 p s))))"
    by (rule cache_file_fault)
next
  assume h: "resolve (files s) p = Some content
        \<and> \<not> has_space (fst (space1 e1)) (snd (space1 e1))
              (snd (adjust_cache_size (adjust e1) s)) (int (length content))
        \<and> \<not> has_space (fst (space2 e1)) (snd (space2 e1))
              (snd (adjust_cache_size (adjust e1) s)) (int (length content))"
  then show "p \<notin> set (od_keys (cached_files (snd (cache_file e1 p s))))"
    using cache_file_no_space [OF fresh, of content e1] by simp
  from h show "copy2_calls (snd (cache_file e1 p s)) = copy2_calls s"
    using cache_file_no_space [OF fresh, of content e1] by simp
qed

theorem cache_file_idempotent_witness:
  "''D:/a.exe'' \<notin> set (od_keys (cached_files example_manager))
   \<and> ''D:/a.exe'' \<in> set (od_keys (cached_files
         (snd (cache_file (migrate_env roomy_disk NoFault) ''D:/a.exe'' example_manager))))
   \<and> copy2_calls (snd (cache_file (migrate_env roomy_disk NoFault) ''D:/a.exe''
         (snd (cache_file (migrate_env roomy_disk NoFault) ''D:/a.exe'' example_manager)))) = 1
   \<and> cached_files (snd (cache_file (migrate_env roomy_disk NoFault) ''D:/a.exe''
         (snd (cache_file (migrate_env roomy_disk NoFault) ''D:/a.exe'' example_manager))))
       = [(''D:/a.exe'', ''C:/Cache/a.exe'')]
   \<and> fault (migrate_env roomy_disk SymlinkFails) \<noteq> NoFault
   \<and> ''D:/a.exe'' \<notin> set (od_keys (cached_files
         (snd (cache_file (migrate_env roomy_disk SymlinkFails) ''D:/a.exe'' example_manager))))
   \<and> copy2_calls (snd (cache_file (migrate_env roomy_disk SymlinkFails) ''D:/a.exe''
         example_manager)) = 1
   \<and> resolve (files example_manager) ''D:/a.exe'' = Some [1, 2, 3]
   \<and> \<not> has_space (fst (space1 (migrate_env full_disk NoFault)))
         (snd (space1 (migrate_env full_disk NoFault)))
         (snd (adjust_cache_size (adjust (migrate_env full_disk NoFault)) example_manager))
         (int (length [1, 2, 3 :: byte]))
   \<and> \<not> has_space (fst (space2 (migrate_env full_disk NoFault)))
         (snd (space2 (migrate_env full_disk NoFault)))
         (snd (adjust_cache_size (adjust (migrate_env full_disk NoFault)) example_manager))
         (int (length [1, 2, 3 :: byte]))
   \<and> ''D:/a.exe'' \<notin> set (od_keys (cached_files
         (snd (cache_file (migrate_env full_disk NoFault) ''D:/a.exe'' example_manager))))
   \<and> copy2_calls (snd (cache_file (migrate_env full_disk NoFault) ''D:/a.exe''
         example_manager)) = 0"
proof -
  have f: "''D:/a.exe'' \<notin> set (od_keys (cached_files example_manager))"
    by (simp add: example_manager_def od_keys_def)
  have r: "''D:/a.exe'' \<in> set (od_keys (cached_files
         (snd (cache_file (migrate_env roomy_disk NoFault) ''D:/a.exe'' example_manager))))"
    by (simp add: cache_file_roomy od_keys_def)
  have c: "copy2_calls example_manager = 0" by (simp add: example_manager_def)
  have flt: "fault (migrate_env roomy_disk SymlinkFails) \<noteq> NoFault"
    by (simp add: migrate_env_def)
  have content: "resolve (files example_manager) ''D:/a.exe'' = Some [1, 2, 3]"
    by (simp add: example_manager_def resolve_def)
  have n1: "\<not> has_space (fst (space1 (migrate_env full_disk NoFault)))
         (snd (space1 (migrate_env full_disk NoFault)))
         (snd (adjust_cache_size (adjust (migrate_env full_disk NoFault)) example_manager))
         (int (length [1, 2, 3 :: byte]))"
    by (simp add: has_space_int migrate_env_def full_disk_def)
  have n2: "\<not> has_space (fst (space2 (migrate_env full_disk NoFault)))
         (snd (space2 (migrate_env full_disk NoFault)))
         (snd (adjust_cache_size (adjust (migrate_env full_disk NoFault)) example_manager))
         (int (length [1, 2, 3 :: byte]))"
    by (simp add: has_space_int migrate_env_def full_disk_def)
  from cache_file_idempotent [OF f, where ?e1.0 = "migrate_env roomy_disk NoFault"
      and ?e2.0 = "migrate_env roomy_disk NoFault"] r
  have a: "copy2_calls (snd (cache_file (migrate_env roomy_disk NoFault) ''D:/a.exe''
         (snd (cache_file (migrate_env roomy_disk NoFault) ''D:/a.exe'' example_manager)))) = 1
   \<and> cached_files (snd (cache_file (migrate_env roomy_disk NoFault) ''D:/a.exe''
         (snd (cache_file (migrate_env roomy_disk NoFault) ''D:/a.exe'' example_manager))))
       = [(''D:/a.exe'', ''C:/Cache/a.exe'')]"
    by (simp add: cache_file_roomy c)
  from cache_file_idempotent [OF f, where ?e1.0 = "migrate_env roomy_disk SymlinkFails"] flt
  have b: "''D:/a.exe'' \<notin> set (od_keys (cached_files
         (snd (cache_file (migrate_env roomy_disk SymlinkFails) ''D:/a.exe'' example_manager))))"
    by simp
  from cache_file_idempotent [OF f, where ?e1.0 = "migrate_env full_disk NoFault"
      and content = "[1, 2, 3]"] content n1 n2
  have d: "''D:/a.exe'' \<notin> set (od_keys (cached_files
         (snd (cache_file (migrate_env full_disk NoFault) ''D:/a.exe'' example_manager))))
   \<and> copy2_calls (snd (cache_file (migrate_env full_disk NoFault) ''D:/a.exe''
         example_manager)) = 0"
    by (simp add: c)
  from f r a flt b cache_file_symlink_fails content n1 n2 d show ?thesis by (intro conjI) simp_all
qed

end
